theory Spec2Isabelle
  imports Main "HOL-Library.Word"
begin

section \<open>JavaScript values as github.js sees them\<close>

text \<open>
  A JavaScript string is a sequence of 16-bit code units. String literals of the source
  are written \<open>lit ''...''\<close>; the few non-ASCII literals are spelled out as code units.
\<close>

type_synonym jschar = "16 word"
type_synonym jsstring = "jschar list"

definition lit :: "string \<Rightarrow> jsstring" where
  "lit s = map of_char s"

text \<open>The code unit of a given numeric value.\<close>

definition code_unit :: "nat \<Rightarrow> jschar" where
  "code_unit n = word_of_nat n"

text \<open>
  \<open>String.prototype.trim\<close> strips WhiteSpace and LineTerminator code points from both
  ends (ECMAScript, TrimString).
\<close>

definition is_trim_space :: "jschar \<Rightarrow> bool" where
  "is_trim_space c \<longleftrightarrow>
     c = 0x9 \<or> c = 0xA \<or> c = 0xB \<or> c = 0xC \<or> c = 0xD \<or> c = 0x20 \<or> c = 0xA0 \<or>
     c = 0x1680 \<or> (0x2000 \<le> c \<and> c \<le> 0x200A) \<or> c = 0x2028 \<or> c = 0x2029 \<or>
     c = 0x202F \<or> c = 0x205F \<or> c = 0x3000 \<or> c = 0xFEFF"

definition trim :: "jsstring \<Rightarrow> jsstring" where
  "trim s = rev (dropWhile is_trim_space (rev (dropWhile is_trim_space s)))"

text \<open>
  The errors the program can meet. \<open>FetchFailed\<close> is the rejection of \<open>fetch\<close> (a
  transport-level failure).
\<close>

datatype js_error = SyntaxError | TypeError | URIError | InvalidCharacterError | FetchFailed

text \<open>
  A Number that came out of \<open>JSON.parse\<close> is kept as the decimal the text denotes:
  \<open>Dec neg m e\<close> is \<open>\<plusminus> m * 10 ^ e\<close>. The program only ever asks two things of a
  number: whether it is truthy, and its text.
\<close>

datatype jsnum = Dec bool nat int

datatype jsval =
    JUndefined
  | JNull
  | JBool bool
  | JNum jsnum
  | JStr jsstring
  | JArr "jsval list"
  | JObj "(jsstring \<times> jsval) list"

text \<open>
  A decimal is read as the nearest double; it is falsy exactly when that double is zero,
  that is when its magnitude is at most \<open>2 ^ -1075\<close> (half the least subnormal).
\<close>

fun num_truthy :: "jsnum \<Rightarrow> bool" where
  "num_truthy (Dec neg m e) \<longleftrightarrow> m \<noteq> 0 \<and> (0 \<le> e \<or> 10 ^ nat (- e) < m * 2 ^ 1075)"

fun ToBoolean :: "jsval \<Rightarrow> bool" where
  "ToBoolean JUndefined = False"
| "ToBoolean JNull = False"
| "ToBoolean (JBool b) = b"
| "ToBoolean (JNum n) = num_truthy n"
| "ToBoolean (JStr s) = (s \<noteq> [])"
| "ToBoolean (JArr xs) = True"
| "ToBoolean (JObj ps) = True"

text \<open>
  Property reads. The program reads only the names \<open>owner\<close>, \<open>repo\<close>, \<open>branch\<close>,
  \<open>token\<close>, \<open>sha\<close> and \<open>content\<close>; none of them is a property of a primitive, of an
  array or of \<open>Object.prototype\<close>, so only an object's own members can answer.
  \<open>member\<close> is \<open>v.k\<close> (a TypeError on null and undefined), \<open>opt_member\<close> is \<open>v?.k\<close>.
\<close>

fun own_member :: "jsval \<Rightarrow> jsstring \<Rightarrow> jsval" where
  "own_member (JObj ps) k = (case map_of ps k of Some v \<Rightarrow> v | None \<Rightarrow> JUndefined)"
| "own_member v k = JUndefined"

fun nullish :: "jsval \<Rightarrow> bool" where
  "nullish JUndefined = True"
| "nullish JNull = True"
| "nullish v = False"

definition member :: "jsval \<Rightarrow> jsstring \<Rightarrow> js_error + jsval" where
  "member v k = (if nullish v then Inl TypeError else Inr (own_member v k))"

definition opt_member :: "jsval \<Rightarrow> jsstring \<Rightarrow> jsval" where
  "opt_member v k = (if nullish v then JUndefined else own_member v k)"

text \<open>\<open>a || b\<close> on values.\<close>

definition or_else :: "jsval \<Rightarrow> jsval \<Rightarrow> jsval" where
  "or_else a b = (if ToBoolean a then a else b)"

text \<open>Sequencing of computations that may throw.\<close>

fun bind_err :: "js_error + 'a \<Rightarrow> ('a \<Rightarrow> js_error + 'b) \<Rightarrow> js_error + 'b" where
  "bind_err (Inl e) f = Inl e"
| "bind_err (Inr x) f = f x"

section \<open>Hexadecimal digits\<close>

definition hex_digit :: "bool \<Rightarrow> nat \<Rightarrow> jschar" where
  "hex_digit upper d = (if d < 10 then code_unit (48 + d) else code_unit ((if upper then 55 else 87) + d))"

definition hex_value :: "jschar \<Rightarrow> nat option" where
  "hex_value c = (let n = unat c in
     if 48 \<le> n \<and> n \<le> 57 then Some (n - 48)
     else if 65 \<le> n \<and> n \<le> 70 then Some (n - 55)
     else if 97 \<le> n \<and> n \<le> 102 then Some (n - 87)
     else None)"

fun hex_number :: "jsstring \<Rightarrow> nat option" where
  "hex_number [] = Some 0"
| "hex_number (c # cs) =
     (case hex_value c of None \<Rightarrow> None
      | Some d \<Rightarrow> (case hex_number cs of None \<Rightarrow> None | Some n \<Rightarrow> Some (d * 16 ^ length cs + n)))"

definition hex2 :: "bool \<Rightarrow> nat \<Rightarrow> jsstring" where
  "hex2 upper n = [hex_digit upper (n div 16 mod 16), hex_digit upper (n mod 16)]"

definition hex4 :: "bool \<Rightarrow> nat \<Rightarrow> jsstring" where
  "hex4 upper n = hex2 upper (n div 256) @ hex2 upper (n mod 256)"

section \<open>JSON text\<close>

subsection \<open>\<open>JSON.stringify\<close>\<close>

text \<open>
  QuoteJSONString walks the string by code points: a surrogate pair is copied, a lone
  surrogate and a control character are escaped (lower-case hex).
\<close>

definition is_high_surrogate :: "jschar \<Rightarrow> bool" where
  "is_high_surrogate c \<longleftrightarrow> 0xD800 \<le> c \<and> c \<le> 0xDBFF"

definition is_low_surrogate :: "jschar \<Rightarrow> bool" where
  "is_low_surrogate c \<longleftrightarrow> 0xDC00 \<le> c \<and> c \<le> 0xDFFF"

definition unicode_escape :: "jschar \<Rightarrow> jsstring" where
  "unicode_escape c = [0x5C, 0x75] @ hex4 False (unat c)"

definition quote_unit :: "jschar \<Rightarrow> jsstring" where
  "quote_unit c =
     (if c = 0x08 then [0x5C, 0x62]
      else if c = 0x09 then [0x5C, 0x74]
      else if c = 0x0A then [0x5C, 0x6E]
      else if c = 0x0C then [0x5C, 0x66]
      else if c = 0x0D then [0x5C, 0x72]
      else if c = 0x22 then [0x5C, 0x22]
      else if c = 0x5C then [0x5C, 0x5C]
      else if c < 0x20 \<or> is_high_surrogate c \<or> is_low_surrogate c then unicode_escape c
      else [c])"

fun quote_units :: "jsstring \<Rightarrow> jsstring" where
  "quote_units [] = []"
| "quote_units [c] = quote_unit c"
| "quote_units (c # d # cs) =
     (if is_high_surrogate c \<and> is_low_surrogate d then c # d # quote_units cs
      else quote_unit c @ quote_units (d # cs))"

definition QuoteJSONString :: "jsstring \<Rightarrow> jsstring" where
  "QuoteJSONString s = [0x22] @ quote_units s @ [0x22]"

fun join :: "jsstring \<Rightarrow> jsstring list \<Rightarrow> jsstring" where
  "join sep [] = []"
| "join sep [x] = x"
| "join sep (x # y # ys) = x @ sep @ join sep (y # ys)"

text \<open>
  \<open>json_text nts v\<close> is \<open>JSON.stringify(v)\<close>, \<open>None\<close> standing for the result
  \<open>undefined\<close>. The members of an object are written in the order of the list, which is
  the order an object literal creates them in. \<open>nts\<close> is Number::toString, which the
  platform brings; a number that is not finite is written \<open>null\<close>.
\<close>

definition number_json :: "(jsnum \<Rightarrow> jsstring) \<Rightarrow> jsnum \<Rightarrow> jsstring" where
  "number_json nts n =
     (let t = nts n in
      if t = lit ''Infinity'' \<or> t = lit ''-Infinity'' \<or> t = lit ''NaN'' then lit ''null'' else t)"

fun json_text :: "(jsnum \<Rightarrow> jsstring) \<Rightarrow> jsval \<Rightarrow> jsstring option"
  and json_elements :: "(jsnum \<Rightarrow> jsstring) \<Rightarrow> jsval list \<Rightarrow> jsstring list"
  and json_members :: "(jsnum \<Rightarrow> jsstring) \<Rightarrow> (jsstring \<times> jsval) list \<Rightarrow> jsstring list"
where
  "json_text nts JUndefined = None"
| "json_text nts JNull = Some (lit ''null'')"
| "json_text nts (JBool b) = Some (if b then lit ''true'' else lit ''false'')"
| "json_text nts (JNum n) = Some (number_json nts n)"
| "json_text nts (JStr s) = Some (QuoteJSONString s)"
| "json_text nts (JArr xs) = Some ([0x5B] @ join [0x2C] (json_elements nts xs) @ [0x5D])"
| "json_text nts (JObj ps) = Some ([0x7B] @ join [0x2C] (json_members nts ps) @ [0x7D])"
| "json_elements nts [] = []"
| "json_elements nts (x # xs) =
     (case json_text nts x of None \<Rightarrow> lit ''null'' | Some t \<Rightarrow> t) # json_elements nts xs"
| "json_members nts [] = []"
| "json_members nts (p # ps) =
     (case json_text nts (snd p) of
        None \<Rightarrow> json_members nts ps
      | Some t \<Rightarrow> (QuoteJSONString (fst p) @ [0x3A] @ t) # json_members nts ps)"

subsection \<open>\<open>JSON.parse\<close>\<close>

definition is_json_space :: "jschar \<Rightarrow> bool" where
  "is_json_space c \<longleftrightarrow> c = 0x20 \<or> c = 0x09 \<or> c = 0x0A \<or> c = 0x0D"

definition skip_ws :: "jsstring \<Rightarrow> jsstring" where
  "skip_ws cs = dropWhile is_json_space cs"

definition is_digit :: "jschar \<Rightarrow> bool" where
  "is_digit c \<longleftrightarrow> 0x30 \<le> c \<and> c \<le> 0x39"

definition digits_value :: "jsstring \<Rightarrow> nat" where
  "digits_value ds = foldl (\<lambda>a d. 10 * a + (unat d - 48)) 0 ds"

text \<open>The characters of a string after its opening quote, up to the closing one.\<close>

definition simple_escape :: "jschar \<Rightarrow> jschar option" where
  "simple_escape e =
     (if e = 0x22 then Some 0x22
      else if e = 0x5C then Some 0x5C
      else if e = 0x2F then Some 0x2F
      else if e = 0x62 then Some 0x08
      else if e = 0x66 then Some 0x0C
      else if e = 0x6E then Some 0x0A
      else if e = 0x72 then Some 0x0D
      else if e = 0x74 then Some 0x09
      else None)"

fun parse_string :: "jsstring \<Rightarrow> (jsstring \<times> jsstring) option" where
  "parse_string [] = None"
| "parse_string (c # cs) =
     (if c = 0x22 then Some ([], cs)
      else if c = 0x5C then
        (case cs of
           [] \<Rightarrow> None
         | e # r \<Rightarrow>
            if e = 0x75 then
              (case r of
                 h1 # h2 # h3 # h4 # r' \<Rightarrow>
                   (case hex_number [h1, h2, h3, h4] of
                      None \<Rightarrow> None
                    | Some n \<Rightarrow> map_option (\<lambda>(s, t). (code_unit n # s, t)) (parse_string r'))
               | _ \<Rightarrow> None)
            else
              (case simple_escape e of
                 None \<Rightarrow> None
               | Some x \<Rightarrow> map_option (\<lambda>(s, t). (x # s, t)) (parse_string r)))
      else if c < 0x20 then None
      else map_option (\<lambda>(s, t). (c # s, t)) (parse_string cs))"

text \<open>
  A number: \<open>-? (0 | [1-9][0-9]*) (. [0-9]+)? ([eE] [+-]? [0-9]+)?\<close>.
\<close>

definition parse_exponent :: "jsstring \<Rightarrow> (int \<times> jsstring) option" where
  "parse_exponent cs =
     (case cs of
        [] \<Rightarrow> Some (0, cs)
      | c # r \<Rightarrow>
          if c = 0x65 \<or> c = 0x45 then
            (let (neg, r1) = (case r of [] \<Rightarrow> (False, r)
                              | s # r0 \<Rightarrow> if s = 0x2D then (True, r0)
                                          else if s = 0x2B then (False, r0) else (False, r));
                 ds = takeWhile is_digit r1
             in if ds = [] then None
                else Some ((if neg then - int (digits_value ds) else int (digits_value ds)),
                           dropWhile is_digit r1))
          else Some (0, cs))"

definition parse_fraction :: "jsstring \<Rightarrow> (jsstring \<times> jsstring) option" where
  "parse_fraction cs =
     (case cs of
        [] \<Rightarrow> Some ([], cs)
      | c # r \<Rightarrow>
          if c = 0x2E then
            (let ds = takeWhile is_digit r
             in if ds = [] then None else Some (ds, dropWhile is_digit r))
          else Some ([], cs))"

definition parse_number :: "jsstring \<Rightarrow> (jsval \<times> jsstring) option" where
  "parse_number cs =
     (let (neg, r0) = (case cs of [] \<Rightarrow> (False, cs)
                       | c # r \<Rightarrow> if c = 0x2D then (True, r) else (False, cs));
          ds = takeWhile is_digit r0;
          r1 = dropWhile is_digit r0
      in if ds = [] \<or> (hd ds = 0x30 \<and> length ds > 1) then None
         else (case parse_fraction r1 of
                 None \<Rightarrow> None
               | Some (fs, r2) \<Rightarrow>
                   (case parse_exponent r2 of
                      None \<Rightarrow> None
                    | Some (x, r3) \<Rightarrow>
                        Some (JNum (Dec neg (digits_value (ds @ fs)) (x - int (length fs))), r3))))"

text \<open>
  A later member of the same name replaces the earlier one, as the repeated property
  definition of \<open>JSON.parse\<close> does.
\<close>

fun obj_put :: "(jsstring \<times> jsval) list \<Rightarrow> jsstring \<Rightarrow> jsval \<Rightarrow> (jsstring \<times> jsval) list" where
  "obj_put [] k v = [(k, v)]"
| "obj_put (p # ps) k v = (if fst p = k then (k, v) # ps else p # obj_put ps k v)"

definition eat :: "jschar \<Rightarrow> jsstring \<Rightarrow> jsstring option" where
  "eat c cs = (case cs of [] \<Rightarrow> None | x # r \<Rightarrow> if x = c then Some r else None)"

definition eat_word :: "jsstring \<Rightarrow> jsstring \<Rightarrow> jsstring option" where
  "eat_word w cs = (if take (length w) cs = w then Some (drop (length w) cs) else None)"

lemma length_skip_ws: "length (skip_ws cs) \<le> length cs"
  by (simp add: skip_ws_def length_dropWhile_le)

lemma eat_shorter: "eat c cs = Some r \<Longrightarrow> length r < length cs"
  by (auto simp: eat_def split: list.splits if_splits)

lemma eat_word_shorter: "eat_word w cs = Some r \<Longrightarrow> w \<noteq> [] \<Longrightarrow> length r < length cs"
  by (cases cs) (auto simp: eat_word_def split: if_splits)

lemma parse_string_shorter: "parse_string cs = Some (s, r) \<Longrightarrow> length r < length cs"
proof (induction cs arbitrary: s r rule: parse_string.induct)
  case 1
  then show ?case by simp
next
  case (2 c cs)
  then show ?case
    by (fastforce split: if_splits list.splits option.splits)
qed

text \<open>
  The recursive descent over values, array elements and object members. Each function
  is handed the text at the start of what it parses and returns the value with the text
  that follows it; \<open>None\<close> is a syntax error.
\<close>

function parse_value :: "jsstring \<Rightarrow> (jsval \<times> jsstring) option"
  and parse_elements :: "jsstring \<Rightarrow> jsval list \<Rightarrow> (jsval \<times> jsstring) option"
  and parse_members :: "jsstring \<Rightarrow> (jsstring \<times> jsval) list \<Rightarrow> (jsval \<times> jsstring) option"
where
  "parse_value cs =
     (case cs of
        [] \<Rightarrow> None
      | c # r \<Rightarrow>
          if c = 0x5B then
            (case eat 0x5D (skip_ws r) of
               Some r' \<Rightarrow> Some (JArr [], r')
             | None \<Rightarrow> parse_elements (skip_ws r) [])
          else if c = 0x7B then
            (case eat 0x7D (skip_ws r) of
               Some r' \<Rightarrow> Some (JObj [], r')
             | None \<Rightarrow> parse_members (skip_ws r) [])
          else if c = 0x22 then map_option (\<lambda>(s, t). (JStr s, t)) (parse_string r)
          else if c = 0x74 then map_option (Pair (JBool True)) (eat_word (lit ''true'') cs)
          else if c = 0x66 then map_option (Pair (JBool False)) (eat_word (lit ''false'') cs)
          else if c = 0x6E then map_option (Pair JNull) (eat_word (lit ''null'') cs)
          else parse_number cs)"
| "parse_elements cs acc =
     (case parse_value cs of
        None \<Rightarrow> None
      | Some (v, r) \<Rightarrow>
          (case skip_ws r of
             [] \<Rightarrow> None
           | d # r' \<Rightarrow>
               if d = 0x2C then parse_elements (skip_ws r') (acc @ [v])
               else if d = 0x5D then Some (JArr (acc @ [v]), r')
               else None))"
| "parse_members cs acc =
     (case eat 0x22 cs of
        None \<Rightarrow> None
      | Some r0 \<Rightarrow>
          (case parse_string r0 of
             None \<Rightarrow> None
           | Some (k, r1) \<Rightarrow>
               (case eat 0x3A (skip_ws r1) of
                  None \<Rightarrow> None
                | Some r2 \<Rightarrow>
                    (case parse_value (skip_ws r2) of
                       None \<Rightarrow> None
                     | Some (v, r3) \<Rightarrow>
                         (case skip_ws r3 of
                            [] \<Rightarrow> None
                          | d # r4 \<Rightarrow>
                              if d = 0x2C then parse_members (skip_ws r4) (obj_put acc k v)
                              else if d = 0x7D then Some (JObj (obj_put acc k v), r4)
                              else None)))))"
  by pat_completeness auto


text \<open>Every parser consumes input, which is why the descent terminates.\<close>

lemma parse_fraction_shorter: "parse_fraction cs = Some (fs, r) \<Longrightarrow> length r \<le> length cs"
  by (auto simp: parse_fraction_def Let_def split: list.splits if_splits
      intro: le_trans [OF length_dropWhile_le])

lemma parse_exponent_shorter: "parse_exponent cs = Some (x, r) \<Longrightarrow> length r \<le> length cs"
  by (auto simp: parse_exponent_def Let_def split: list.splits if_splits
      intro: le_trans [OF length_dropWhile_le] le_SucI)

lemma takeWhile_dropWhile_shorter: "takeWhile P xs \<noteq> [] \<Longrightarrow> length (dropWhile P xs) < length xs"
  by (cases xs) (auto split: if_splits intro: le_imp_less_Suc length_dropWhile_le)

lemma parse_number_shorter:
  assumes "parse_number cs = Some (v, r)"
  shows "length r < length cs"
proof -
  define r0 where "r0 = (case cs of [] \<Rightarrow> cs | c # r \<Rightarrow> if c = 0x2D then r else cs)"
  have r0: "length r0 \<le> length cs"
    by (auto simp: r0_def split: list.splits)
  define r1 where "r1 = dropWhile is_digit r0"
  from assms obtain fs r2 x where
    ds: "takeWhile is_digit r0 \<noteq> []" and
    f: "parse_fraction r1 = Some (fs, r2)" and
    e: "parse_exponent r2 = Some (x, r)"
    by (auto simp: parse_number_def Let_def r0_def r1_def
        split: list.splits if_splits option.splits)
  from ds have "length r1 < length r0"
    unfolding r1_def by (rule takeWhile_dropWhile_shorter)
  with parse_fraction_shorter [OF f] parse_exponent_shorter [OF e] r0
  show ?thesis by linarith
qed

lemma parse_value_shorter_dom:
  "parse_value_parse_elements_parse_members_dom (Inl cs) \<Longrightarrow>
     parse_value cs = Some (v, r) \<Longrightarrow> length r < length cs"
  "parse_value_parse_elements_parse_members_dom (Inr (Inl (cs, acc))) \<Longrightarrow>
     parse_elements cs acc = Some (v, r) \<Longrightarrow> length r < length cs"
  "parse_value_parse_elements_parse_members_dom (Inr (Inr (cs, mem))) \<Longrightarrow>
     parse_members cs mem = Some (v, r) \<Longrightarrow> length r < length cs"
proof (induction cs and cs acc and cs mem arbitrary: v r and v r and v r
    rule: parse_value_parse_elements_parse_members.pinduct)
  case (1 cs)
  from "1.prems" obtain c t where cs: "cs = c # t"
    by (subst (asm) parse_value.psimps [OF "1.hyps"]) (auto split: list.splits)
  have t: "length (skip_ws t) < length cs"
    using length_skip_ws [of t] by (simp add: cs)
  consider (arr0) "c = 0x5B" "eat 0x5D (skip_ws t) = Some r"
    | (arr) "c = 0x5B" "eat 0x5D (skip_ws t) = None" "parse_elements (skip_ws t) [] = Some (v, r)"
    | (obj0) "c \<noteq> 0x5B" "c = 0x7B" "eat 0x7D (skip_ws t) = Some r"
    | (obj) "c \<noteq> 0x5B" "c = 0x7B" "eat 0x7D (skip_ws t) = None" "parse_members (skip_ws t) [] = Some (v, r)"
    | (str) s where "parse_string t = Some (s, r)"
    | (word) w where "eat_word w cs = Some r" "w \<noteq> []"
    | (num) "parse_number cs = Some (v, r)"
    using "1.prems"
    by (subst (asm) parse_value.psimps [OF "1.hyps"])
      (auto simp: cs lit_def split: if_splits option.splits)
  then show ?case
  proof cases
    case arr0
    then show ?thesis using eat_shorter t by fastforce
  next
    case arr
    then show ?thesis using "1.IH"(1) [OF cs] t by fastforce
  next
    case obj0
    then show ?thesis using eat_shorter t by fastforce
  next
    case obj
    then show ?thesis using "1.IH"(2) [OF cs] t by fastforce
  next
    case str
    then show ?thesis using parse_string_shorter by (fastforce simp: cs)
  next
    case word
    then show ?thesis by (rule eat_word_shorter)
  next
    case num
    then show ?thesis by (rule parse_number_shorter)
  qed
next
  case (2 cs acc)
  from "2.prems" obtain x y where pv: "parse_value cs = Some (x, y)"
    by (auto simp: parse_elements.psimps [OF "2.hyps"] split: option.splits)
  have y: "length y < length cs"
    by (rule "2.IH"(1) [OF pv])
  from "2.prems" pv obtain d t where sk: "skip_ws y = d # t"
    by (cases "skip_ws y") (auto simp: parse_elements.psimps [OF "2.hyps"])
  have t: "length t < length y"
    using length_skip_ws [of y] by (simp add: sk)
  show ?case
  proof (cases "d = 0x2C")
    case True
    with "2.prems" pv sk have "parse_elements (skip_ws t) (acc @ [x]) = Some (v, r)"
      by (simp add: parse_elements.psimps [OF "2.hyps"])
    from "2.IH"(2) [OF pv refl sk True this] have "length r < length (skip_ws t)" .
    with length_skip_ws [of t] t y show ?thesis by linarith
  next
    case False
    with "2.prems" pv sk have "r = t"
      by (auto simp: parse_elements.psimps [OF "2.hyps"] split: if_splits)
    with t y show ?thesis by simp
  qed
next
  case (3 cs mem)
  from "3.prems" obtain r0 k r1 r2 x y where
    e0: "eat 0x22 cs = Some r0" and ps: "parse_string r0 = Some (k, r1)" and
    e1: "eat 0x3A (skip_ws r1) = Some r2" and pv: "parse_value (skip_ws r2) = Some (x, y)"
    by (auto simp: parse_members.psimps [OF "3.hyps"] split: option.splits)
  have y: "length y < length (skip_ws r2)"
    by (rule "3.IH"(1) [OF e0 ps refl e1 pv])
  have r2: "length (skip_ws r2) < length cs"
    using eat_shorter [OF e0] parse_string_shorter [OF ps] eat_shorter [OF e1]
      length_skip_ws [of r1] length_skip_ws [of r2] by linarith
  from "3.prems" e0 ps e1 pv obtain d t where sk: "skip_ws y = d # t"
    by (cases "skip_ws y") (auto simp: parse_members.psimps [OF "3.hyps"])
  have t: "length t < length y"
    using length_skip_ws [of y] by (simp add: sk)
  show ?case
  proof (cases "d = 0x2C")
    case True
    with "3.prems" e0 ps e1 pv sk
    have "parse_members (skip_ws t) (obj_put mem k x) = Some (v, r)"
      by (simp add: parse_members.psimps [OF "3.hyps"])
    from "3.IH"(2) [OF e0 ps refl e1 pv refl sk True this]
    have "length r < length (skip_ws t)" .
    with length_skip_ws [of t] t y r2 show ?thesis by linarith
  next
    case False
    with "3.prems" e0 ps e1 pv sk have "r = t"
      by (auto simp: parse_members.psimps [OF "3.hyps"] split: if_splits)
    with t y r2 show ?thesis by simp
  qed
qed

termination parse_value
proof (relation "measure (\<lambda>a. case a of Inl cs \<Rightarrow> 2 * length cs
                                  | Inr (Inl (cs, acc)) \<Rightarrow> 2 * length cs + 1
                                  | Inr (Inr (cs, mem)) \<Rightarrow> 2 * length cs + 1)",
    goal_cases)
  case 1
  show ?case by simp
next
  case (2 cs c t)
  then show ?case using length_skip_ws [of t] by simp
next
  case (3 cs c t)
  then show ?case using length_skip_ws [of t] by simp
next
  case (4 cs acc)
  then show ?case by simp
next
  case (5 cs acc p v y d t)
  then show ?case
    using parse_value_shorter_dom(1) [of cs v y] length_skip_ws [of y] length_skip_ws [of t]
    by simp
next
  case (6 cs mem r0 p k r1 r2)
  then show ?case
    using eat_shorter [of "0x22" cs r0] parse_string_shorter [of r0 k r1]
      eat_shorter [of "0x3A" "skip_ws r1" r2] length_skip_ws [of r1] length_skip_ws [of r2]
    by simp
next
  case (7 cs mem r0 p k r1 r2 q v y d t)
  then show ?case
    using eat_shorter [of "0x22" cs r0] parse_string_shorter [of r0 k r1]
      eat_shorter [of "0x3A" "skip_ws r1" r2] length_skip_ws [of r1] length_skip_ws [of r2]
      parse_value_shorter_dom(1) [of "skip_ws r2" v y] length_skip_ws [of y]
      length_skip_ws [of t]
    by simp
qed

text \<open>\<open>JSON.parse\<close>: one value, with nothing but white space around it.\<close>

definition JSON_parse :: "jsstring \<Rightarrow> js_error + jsval" where
  "JSON_parse text =
     (case parse_value (skip_ws text) of
        None \<Rightarrow> Inl SyntaxError
      | Some (v, r) \<Rightarrow> if skip_ws r = [] then Inr v else Inl SyntaxError)"

section \<open>The transport encoding of text\<close>

text \<open>
  \<open>commitFile\<close> sends text as \<open>btoa(unescape(encodeURIComponent(content)))\<close> and
  \<open>loadRemoteData\<close> reads it back with \<open>decodeURIComponent(escape(atob(...)))\<close>. The
  six functions are the platform's; they are written here after ECMAScript (Encode,
  Decode, Annex B \<open>escape\<close>/\<open>unescape\<close>) and HTML (forgiving-base64).
\<close>

subsection \<open>UTF-8 and UTF-16\<close>

definition utf8_bytes :: "nat \<Rightarrow> nat list" where
  "utf8_bytes v =
     (if v < 0x80 then [v]
      else if v < 0x800 then [0xC0 + v div 64, 0x80 + v mod 64]
      else if v < 0x10000 then [0xE0 + v div 4096, 0x80 + v div 64 mod 64, 0x80 + v mod 64]
      else [0xF0 + v div 262144, 0x80 + v div 4096 mod 64, 0x80 + v div 64 mod 64,
            0x80 + v mod 64])"

definition pair_code_point :: "jschar \<Rightarrow> jschar \<Rightarrow> nat" where
  "pair_code_point hi lo = (unat hi - 0xD800) * 0x400 + (unat lo - 0xDC00) + 0x10000"

definition utf16_units :: "nat \<Rightarrow> jsstring" where
  "utf16_units v =
     (if v < 0x10000 then [code_unit v]
      else [code_unit (0xD800 + (v - 0x10000) div 0x400), code_unit (0xDC00 + (v - 0x10000) mod 0x400)])"

definition is_continuation :: "nat \<Rightarrow> bool" where
  "is_continuation b \<longleftrightarrow> 0x80 \<le> b \<and> b < 0xC0"

text \<open>
  The code point of a well-formed UTF-8 sequence of two to four bytes: no overlong form,
  no surrogate, nothing beyond U+10FFFF.
\<close>

definition utf8_decode :: "nat list \<Rightarrow> nat option" where
  "utf8_decode bs =
     (case bs of
        [a, b] \<Rightarrow>
          (let v = (a - 0xC0) * 64 + (b - 0x80)
           in if 0xC0 \<le> a \<and> a < 0xE0 \<and> is_continuation b \<and> 0x80 \<le> v then Some v else None)
      | [a, b, c] \<Rightarrow>
          (let v = (a - 0xE0) * 4096 + (b - 0x80) * 64 + (c - 0x80)
           in if 0xE0 \<le> a \<and> a < 0xF0 \<and> is_continuation b \<and> is_continuation c \<and>
                 0x800 \<le> v \<and> \<not> (0xD800 \<le> v \<and> v \<le> 0xDFFF)
              then Some v else None)
      | [a, b, c, d] \<Rightarrow>
          (let v = (a - 0xF0) * 262144 + (b - 0x80) * 4096 + (c - 0x80) * 64 + (d - 0x80)
           in if 0xF0 \<le> a \<and> a < 0xF8 \<and> is_continuation b \<and> is_continuation c \<and>
                 is_continuation d \<and> 0x10000 \<le> v \<and> v \<le> 0x10FFFF
              then Some v else None)
      | _ \<Rightarrow> None)"

definition is_alnum :: "jschar \<Rightarrow> bool" where
  "is_alnum c \<longleftrightarrow> (0x41 \<le> c \<and> c \<le> 0x5A) \<or> (0x61 \<le> c \<and> c \<le> 0x7A) \<or> (0x30 \<le> c \<and> c \<le> 0x39)"

definition percent :: "nat \<Rightarrow> jsstring" where
  "percent b = 0x25 # hex2 True b"

subsection \<open>\<open>encodeURIComponent\<close> and \<open>decodeURIComponent\<close>\<close>

definition uri_unreserved :: "jschar \<Rightarrow> bool" where
  "uri_unreserved c \<longleftrightarrow>
     is_alnum c \<or> c = 0x2D \<or> c = 0x5F \<or> c = 0x2E \<or> c = 0x21 \<or> c = 0x7E \<or> c = 0x2A \<or>
     c = 0x27 \<or> c = 0x28 \<or> c = 0x29"

fun encodeURIComponent :: "jsstring \<Rightarrow> js_error + jsstring" where
  "encodeURIComponent [] = Inr []"
| "encodeURIComponent (c # cs) =
     (if uri_unreserved c then bind_err (encodeURIComponent cs) (\<lambda>r. Inr (c # r))
      else if is_low_surrogate c then Inl URIError
      else if is_high_surrogate c then
        (case cs of
           [] \<Rightarrow> Inl URIError
         | d # ds \<Rightarrow>
             if is_low_surrogate d then
               bind_err (encodeURIComponent ds)
                 (\<lambda>r. Inr (concat (map percent (utf8_bytes (pair_code_point c d))) @ r))
             else Inl URIError)
      else bind_err (encodeURIComponent cs)
             (\<lambda>r. Inr (concat (map percent (utf8_bytes (unat c))) @ r)))"

definition leading_ones :: "nat \<Rightarrow> nat" where
  "leading_ones b =
     (if b < 0x80 then 0 else if b < 0xC0 then 1 else if b < 0xE0 then 2
      else if b < 0xF0 then 3 else if b < 0xF8 then 4 else 5)"

text \<open>\<open>read_escapes j cs\<close>: the bytes of the \<open>j\<close> escapes \<open>%XX\<close> that \<open>cs\<close> starts with.\<close>

fun read_escapes :: "nat \<Rightarrow> jsstring \<Rightarrow> nat list option" where
  "read_escapes 0 cs = Some []"
| "read_escapes (Suc j) cs =
     (case cs of
        p # h1 # h2 # r \<Rightarrow>
          if p = 0x25 then
            (case hex_number [h1, h2] of
               None \<Rightarrow> None
             | Some b \<Rightarrow> map_option ((#) b) (read_escapes j r))
          else None
      | _ \<Rightarrow> None)"

function decodeURIComponent :: "jsstring \<Rightarrow> js_error + jsstring" where
  "decodeURIComponent [] = Inr []"
| "decodeURIComponent (c # cs) =
     (if c \<noteq> 0x25 then bind_err (decodeURIComponent cs) (\<lambda>r. Inr (c # r))
      else if length cs < 2 then Inl URIError
      else
        (case hex_number (take 2 cs) of
           None \<Rightarrow> Inl URIError
         | Some b \<Rightarrow>
             (let n = leading_ones b in
              if n = 0 then bind_err (decodeURIComponent (drop 2 cs)) (\<lambda>r. Inr (code_unit b # r))
              else if n = 1 \<or> 4 < n then Inl URIError
              else
                (case read_escapes (n - 1) (drop 2 cs) of
                   None \<Rightarrow> Inl URIError
                 | Some bs \<Rightarrow>
                     (case utf8_decode (b # bs) of
                        None \<Rightarrow> Inl URIError
                      | Some v \<Rightarrow>
                          bind_err (decodeURIComponent (drop (2 + 3 * (n - 1)) cs))
                            (\<lambda>r. Inr (utf16_units v @ r)))))))"
  by pat_completeness auto
termination
  by (relation "measure length") auto

subsection \<open>\<open>escape\<close> and \<open>unescape\<close>\<close>

definition escape_plain :: "jschar \<Rightarrow> bool" where
  "escape_plain c \<longleftrightarrow>
     is_alnum c \<or> c = 0x40 \<or> c = 0x2A \<or> c = 0x5F \<or> c = 0x2B \<or> c = 0x2D \<or> c = 0x2E \<or>
     c = 0x2F"

definition escape_unit :: "jschar \<Rightarrow> jsstring" where
  "escape_unit c =
     (if escape_plain c then [c]
      else if c < 0x100 then 0x25 # hex2 True (unat c)
      else [0x25, 0x75] @ hex4 True (unat c))"

definition escape :: "jsstring \<Rightarrow> jsstring" where
  "escape s = concat (map escape_unit s)"

function unescape :: "jsstring \<Rightarrow> jsstring" where
  "unescape [] = []"
| "unescape (c # cs) =
     (if c = 0x25 then
        (if 5 \<le> length cs \<and> hd cs = 0x75 then
           (case hex_number (take 4 (tl cs)) of
              Some n \<Rightarrow> code_unit n # unescape (drop 5 cs)
            | None \<Rightarrow> c # unescape cs)
         else if 2 \<le> length cs then
           (case hex_number (take 2 cs) of
              Some n \<Rightarrow> code_unit n # unescape (drop 2 cs)
            | None \<Rightarrow> c # unescape cs)
         else c # unescape cs)
      else c # unescape cs)"
  by pat_completeness auto
termination
  by (relation "measure length") auto

subsection \<open>\<open>btoa\<close> and \<open>atob\<close>\<close>

definition b64_char :: "nat \<Rightarrow> jschar" where
  "b64_char n =
     (if n < 26 then code_unit (65 + n)
      else if n < 52 then code_unit (71 + n)
      else if n < 62 then code_unit (n - 4)
      else if n = 62 then 0x2B
      else 0x2F)"

fun b64_encode :: "nat list \<Rightarrow> jsstring" where
  "b64_encode [] = []"
| "b64_encode [a] = [b64_char (a div 4), b64_char (a mod 4 * 16), 0x3D, 0x3D]"
| "b64_encode [a, b] =
     [b64_char (a div 4), b64_char (a mod 4 * 16 + b div 16), b64_char (b mod 16 * 4), 0x3D]"
| "b64_encode (a # b # c # bs) =
     [b64_char (a div 4), b64_char (a mod 4 * 16 + b div 16),
      b64_char (b mod 16 * 4 + c div 64), b64_char (c mod 64)] @ b64_encode bs"

definition btoa :: "jsstring \<Rightarrow> js_error + jsstring" where
  "btoa s =
     (if list_ex (\<lambda>c. 0xFF < c) s then Inl InvalidCharacterError
      else Inr (b64_encode (map unat s)))"

definition is_ascii_space :: "jschar \<Rightarrow> bool" where
  "is_ascii_space c \<longleftrightarrow> c = 0x09 \<or> c = 0x0A \<or> c = 0x0C \<or> c = 0x0D \<or> c = 0x20"

definition is_b64_char :: "jschar \<Rightarrow> bool" where
  "is_b64_char c \<longleftrightarrow> is_alnum c \<or> c = 0x2B \<or> c = 0x2F"

definition b64_value :: "jschar \<Rightarrow> nat" where
  "b64_value c =
     (let n = unat c in
      if 65 \<le> n \<and> n \<le> 90 then n - 65
      else if 97 \<le> n \<and> n \<le> 122 then n - 71
      else if 48 \<le> n \<and> n \<le> 57 then n + 4
      else if n = 43 then 62
      else 63)"

definition strip_padding :: "jsstring \<Rightarrow> jsstring" where
  "strip_padding s =
     (if length s mod 4 = 0 then
        (if 2 \<le> length s \<and> drop (length s - 2) s = [0x3D, 0x3D] then take (length s - 2) s
         else if 1 \<le> length s \<and> drop (length s - 1) s = [0x3D] then take (length s - 1) s
         else s)
      else s)"

fun b64_decode :: "nat list \<Rightarrow> nat list" where
  "b64_decode (a # b # c # d # r) =
     [a * 4 + b div 16, b mod 16 * 16 + c div 4, c mod 4 * 64 + d] @ b64_decode r"
| "b64_decode [a, b, c] = [a * 4 + b div 16, b mod 16 * 16 + c div 4]"
| "b64_decode [a, b] = [a * 4 + b div 16]"
| "b64_decode r = []"

definition atob :: "jsstring \<Rightarrow> js_error + jsstring" where
  "atob s =
     (let d = strip_padding (filter (\<lambda>c. \<not> is_ascii_space c) s)
      in if length d mod 4 = 1 \<or> \<not> list_all is_b64_char d then Inl InvalidCharacterError
         else Inr (map code_unit (b64_decode (map b64_value d))))"

subsection \<open>Well-formed strings\<close>

text \<open>A string is well formed when every surrogate is half of a pair.\<close>

fun well_formed :: "jsstring \<Rightarrow> bool" where
  "well_formed [] = True"
| "well_formed [c] = (\<not> is_high_surrogate c \<and> \<not> is_low_surrogate c)"
| "well_formed (c # d # cs) =
     (if is_high_surrogate c then is_low_surrogate d \<and> well_formed cs
      else \<not> is_low_surrogate c \<and> well_formed (d # cs))"

section \<open>Template literals\<close>

text \<open>
  \<open>ToString nts v\<close> is the text a template literal puts in place of \<open>${v}\<close>. An array is
  joined with commas (null and undefined elements are empty). An object is
  \<open>[object Object]\<close>, unless it has a member named \<open>toString\<close>: a member that came out of
  JSON is never callable, and OrdinaryToPrimitive ends in a TypeError.
\<close>

fun ToString :: "(jsnum \<Rightarrow> jsstring) \<Rightarrow> jsval \<Rightarrow> js_error + jsstring"
  and ToString_elements :: "(jsnum \<Rightarrow> jsstring) \<Rightarrow> jsval list \<Rightarrow> js_error + jsstring list"
where
  "ToString nts JUndefined = Inr (lit ''undefined'')"
| "ToString nts JNull = Inr (lit ''null'')"
| "ToString nts (JBool b) = Inr (if b then lit ''true'' else lit ''false'')"
| "ToString nts (JNum n) = Inr (nts n)"
| "ToString nts (JStr s) = Inr s"
| "ToString nts (JArr xs) = bind_err (ToString_elements nts xs) (\<lambda>ts. Inr (join [0x2C] ts))"
| "ToString nts (JObj ps) =
     (if map_of ps (lit ''toString'') = None then Inr (lit ''[object Object]'')
      else Inl TypeError)"
| "ToString_elements nts [] = Inr []"
| "ToString_elements nts (x # xs) =
     bind_err (if nullish x then Inr [] else ToString nts x)
       (\<lambda>t. bind_err (ToString_elements nts xs) (\<lambda>ts. Inr (t # ts)))"

text \<open>The decimal text of a natural number (an HTTP status).\<close>

fun decimal_digits :: "nat \<Rightarrow> nat \<Rightarrow> jsstring" where
  "decimal_digits 0 n = []"
| "decimal_digits (Suc k) n =
     (if n < 10 then [code_unit (48 + n)]
      else decimal_digits k (n div 10) @ [code_unit (48 + n mod 10)])"

definition decimal :: "nat \<Rightarrow> jsstring" where
  "decimal n = decimal_digits (Suc n) n"

section \<open>The module \<open>GH\<close>\<close>

subsection \<open>What the module acts on\<close>

datatype http_method = GET | PUT

text \<open>
  A request as \<open>fetch\<close> receives it. \<open>req_body\<close> is the object that the program hands to
  \<open>JSON.stringify\<close> for the body.
\<close>

record request =
  req_method :: http_method
  req_url :: jsstring
  req_headers :: "(string \<times> jsstring) list"
  req_body :: "jsval option"

text \<open>
  A response: its status, and what \<open>res.json()\<close> settles to (the parsed body, or the
  error it rejects with). \<open>res.ok\<close> is a status in the range 200 to 299.
\<close>

record response =
  status :: nat
  json :: "js_error + jsval"

definition ok :: "response \<Rightarrow> bool" where
  "ok res \<longleftrightarrow> 200 \<le> status res \<and> status res \<le> 299"

text \<open>
  The platform: Number::toString, and the transport with the remote store behind it.
  \<open>fetch pf earlier q\<close> is what the request \<open>q\<close> settles to after the requests
  \<open>earlier\<close>: a response, or the error \<open>fetch\<close> rejects with. Nothing is assumed of it.
\<close>

record platform =
  number_text :: "jsnum \<Rightarrow> jsstring"
  fetch :: "request list \<Rightarrow> request \<Rightarrow> js_error + response"

text \<open>
  What the page shows. The status indicator is either the GitHub one, with its label and
  the form fields filled from the config, or the local one. The sync bar is kept as the
  sequence of what it was told to show. The page is taken to have the elements the module
  looks up and to accept what it is told.

  The indicator keeps the config it was filled from, not the texts made of it. Making
  them is a conversion to a string: \<open>updateStatusUI\<close> writes the label
  \<open>${this.config.owner}/${this.config.repo}\<close> and assigns the four fields to the form.
  For fields that are strings or missing, as in every config that \<open>save\<close> writes and in
  every config that is loaded below, the conversion cannot fail. A stored item that
  \<open>save\<close> did not write can hold a connected config with a field that has no string form
  (an object with a member \<open>toString\<close>); there the conversion throws a TypeError out of
  \<open>updateStatusUI\<close> and of \<open>load\<close>. That error is outside this model, in which
  \<open>updateStatusUI\<close> always returns: the properties of \<open>load\<close> below are about a missing
  item, items that \<open>save\<close> wrote, items that do not parse, and an item with string fields.
\<close>

datatype status_ui = StatusGithub jsval | StatusLocal

datatype sync_event = SyncActive jsstring | SyncOk jsstring | SyncError jsstring

text \<open>
  The state: \<open>GH.config\<close>, the item \<open>eafc_gh_config\<close> of \<open>localStorage\<close>, the page, and the
  requests made so far.
\<close>

record world =
  config :: jsval
  local_storage :: "jsstring option"
  indicator :: status_ui
  sync_bar :: "sync_event list"
  sent :: "request list"

subsection \<open>Config\<close>

definition isConnected :: "world \<Rightarrow> bool" where
  "isConnected w \<longleftrightarrow>
     ToBoolean (opt_member (config w) (lit ''owner'')) \<and>
     ToBoolean (opt_member (config w) (lit ''repo'')) \<and>
     ToBoolean (opt_member (config w) (lit ''token''))"

definition updateStatusUI :: "world \<Rightarrow> world" where
  "updateStatusUI w =
     (if isConnected w then w\<lparr>indicator := StatusGithub (config w)\<rparr>
      else w\<lparr>indicator := StatusLocal\<rparr>)"

text \<open>
  \<open>load\<close>: \<open>raw ? JSON.parse(raw) : null\<close>. A missing item and the empty string are falsy.
  When \<open>JSON.parse\<close> throws, nothing has been assigned yet.
\<close>

definition load :: "world \<Rightarrow> (js_error + bool) \<times> world" where
  "load w =
     (case (case local_storage w of
              None \<Rightarrow> Inr JNull
            | Some raw \<Rightarrow> if raw = [] then Inr JNull else JSON_parse raw) of
        Inl e \<Rightarrow> (Inl e, w)
      | Inr c \<Rightarrow> (Inr (ToBoolean c), updateStatusUI (w\<lparr>config := c\<rparr>)))"

definition config_object :: "jsstring \<Rightarrow> jsstring \<Rightarrow> jsstring \<Rightarrow> jsstring \<Rightarrow> jsval" where
  "config_object owner repo branch token =
     JObj [(lit ''owner'', JStr owner), (lit ''repo'', JStr repo),
           (lit ''branch'', JStr branch), (lit ''token'', JStr token)]"

definition JSON_stringify :: "(jsnum \<Rightarrow> jsstring) \<Rightarrow> jsval \<Rightarrow> jsstring" where
  "JSON_stringify nts v = (case json_text nts v of None \<Rightarrow> lit ''undefined'' | Some t \<Rightarrow> t)"

definition save :: "platform \<Rightarrow> jsstring \<Rightarrow> jsstring \<Rightarrow> jsstring \<Rightarrow> jsstring \<Rightarrow> world \<Rightarrow> world" where
  "save pf owner repo branch token w =
     (let c = config_object (trim owner) (trim repo)
                (if trim branch = [] then lit ''main'' else trim branch) (trim token)
      in updateStatusUI
           (w\<lparr>config := c, local_storage := Some (JSON_stringify (number_text pf) c)\<rparr>))"

definition disconnect :: "world \<Rightarrow> world" where
  "disconnect w = updateStatusUI (w\<lparr>config := JNull, local_storage := None\<rparr>)"

subsection \<open>Sequences of config operations\<close>




subsection \<open>Sync bar\<close>

definition showSyncBar :: "jsstring \<Rightarrow> world \<Rightarrow> world" where
  "showSyncBar msg w =
     w\<lparr>sync_bar := sync_bar w @
         [SyncActive (if msg = [] then lit ''Syncing to GitHub'' @ [0x2026] else msg)]\<rparr>"

definition hideSyncBar :: "jsstring \<Rightarrow> jsstring \<Rightarrow> world \<Rightarrow> world" where
  "hideSyncBar st msg w =
     w\<lparr>sync_bar := sync_bar w @
         [if st = lit ''ok'' then SyncOk (if msg = [] then lit ''Synced to GitHub'' else msg)
          else SyncError (if msg = []
                          then lit ''Sync failed '' @ [0x2014] @ lit '' data saved locally''
                          else msg)]\<rparr>"

subsection \<open>Core API\<close>

definition apiBase :: "platform \<Rightarrow> world \<Rightarrow> js_error + jsstring" where
  "apiBase pf w =
     bind_err (member (config w) (lit ''owner'')) (\<lambda>ow.
     bind_err (ToString (number_text pf) ow) (\<lambda>owner.
     bind_err (member (config w) (lit ''repo'')) (\<lambda>rp.
     bind_err (ToString (number_text pf) rp) (\<lambda>repo.
       Inr (lit ''https://api.github.com/repos/'' @ owner @ lit ''/'' @ repo)))))"

definition headers :: "platform \<Rightarrow> world \<Rightarrow> js_error + (string \<times> jsstring) list" where
  "headers pf w =
     bind_err (member (config w) (lit ''token'')) (\<lambda>tk.
     bind_err (ToString (number_text pf) tk) (\<lambda>token.
       Inr [(''Authorization'', lit ''token '' @ token),
            (''Accept'', lit ''application/vnd.github.v3+json''),
            (''Content-Type'', lit ''application/json'')]))"

text \<open>\<open>branch_ref pf w\<close> is the text of \<open>${this.config.branch}\<close>.\<close>

definition branch_ref :: "platform \<Rightarrow> world \<Rightarrow> js_error + jsstring" where
  "branch_ref pf w =
     bind_err (member (config w) (lit ''branch'')) (\<lambda>b. ToString (number_text pf) b)"

text \<open>Calling \<open>fetch\<close>: the request joins those made, and settles as the platform says.\<close>

definition do_fetch :: "platform \<Rightarrow> request \<Rightarrow> world \<Rightarrow> (js_error + response) \<times> world" where
  "do_fetch pf q w = (fetch pf (sent w) q, w\<lparr>sent := sent w @ [q]\<rparr>)"

text \<open>The request of \<open>getFileSHA\<close>: evaluating its arguments may throw before any call.\<close>

definition sha_request :: "platform \<Rightarrow> jsstring \<Rightarrow> world \<Rightarrow> js_error + request" where
  "sha_request pf path w =
     bind_err (apiBase pf w) (\<lambda>base.
     bind_err (branch_ref pf w) (\<lambda>branch.
     bind_err (headers pf w) (\<lambda>hs.
       Inr \<lparr>req_method = GET,
            req_url = base @ lit ''/contents/'' @ path @ lit ''?ref='' @ branch,
            req_headers = hs, req_body = None\<rparr>)))"

text \<open>The \<open>try\<close> block of \<open>getFileSHA\<close>, and \<open>getFileSHA\<close> with its \<open>catch\<close>.\<close>

definition getFileSHA_try :: "platform \<Rightarrow> jsstring \<Rightarrow> world \<Rightarrow> (js_error + jsval) \<times> world" where
  "getFileSHA_try pf path w =
     (case sha_request pf path w of
        Inl e \<Rightarrow> (Inl e, w)
      | Inr q \<Rightarrow>
          (case do_fetch pf q w of
             (Inl e, w1) \<Rightarrow> (Inl e, w1)
           | (Inr res, w1) \<Rightarrow>
               if status res = 404 then (Inr JNull, w1)
               else if \<not> ok res then (Inr JNull, w1)
               else (bind_err (json res) (\<lambda>data.
                     bind_err (member data (lit ''sha'')) (\<lambda>sha.
                       Inr (or_else sha JNull))), w1)))"

definition getFileSHA :: "platform \<Rightarrow> jsstring \<Rightarrow> world \<Rightarrow> jsval \<times> world" where
  "getFileSHA pf path w =
     (case getFileSHA_try pf path w of
        (Inl e, w1) \<Rightarrow> (JNull, w1)
      | (Inr sha, w1) \<Rightarrow> (sha, w1))"

text \<open>The text content as it is sent: \<open>btoa(unescape(encodeURIComponent(content)))\<close>.\<close>

definition encode_text :: "jsstring \<Rightarrow> js_error + jsstring" where
  "encode_text content = bind_err (encodeURIComponent content) (\<lambda>e. btoa (unescape e))"

definition commit_body :: "jsstring \<Rightarrow> jsval \<Rightarrow> jsstring \<Rightarrow> jsval \<Rightarrow> jsval" where
  "commit_body commitMsg branch content sha =
     JObj ([(lit ''message'', JStr commitMsg), (lit ''branch'', branch),
            (lit ''content'', JStr content)] @
           (if ToBoolean sha then [(lit ''sha'', sha)] else []))"

definition put_request :: "platform \<Rightarrow> jsstring \<Rightarrow> jsval \<Rightarrow> world \<Rightarrow> js_error + request" where
  "put_request pf path body w =
     bind_err (apiBase pf w) (\<lambda>base.
     bind_err (headers pf w) (\<lambda>hs.
       Inr \<lparr>req_method = PUT, req_url = base @ lit ''/contents/'' @ path,
            req_headers = hs, req_body = Some body\<rparr>))"

text \<open>
  The write request of \<open>commitFile\<close>, for the tag \<open>sha\<close> that the read returned. Building
  it may throw (the content may not encode) before any call is made.
\<close>

definition write_request ::
  "platform \<Rightarrow> jsstring \<Rightarrow> jsstring \<Rightarrow> jsstring \<Rightarrow> bool \<Rightarrow> jsval \<Rightarrow> world \<Rightarrow> js_error + request" where
  "write_request pf path content commitMsg isBinary sha w =
     bind_err (member (config w) (lit ''branch'')) (\<lambda>branch.
     bind_err (if isBinary then Inr content else encode_text content) (\<lambda>c.
       put_request pf path (commit_body commitMsg branch c sha) w))"

text \<open>\<open>commitFile\<close> has no \<open>try\<close>: what is thrown in it reaches its caller.\<close>

definition commitFile ::
  "platform \<Rightarrow> jsstring \<Rightarrow> jsstring \<Rightarrow> jsstring \<Rightarrow> bool \<Rightarrow> world \<Rightarrow> (js_error + bool) \<times> world" where
  "commitFile pf path content commitMsg isBinary w =
     (if \<not> isConnected w then (Inr False, w)
      else
        (case getFileSHA pf path w of
           (sha, w1) \<Rightarrow>
             (case write_request pf path content commitMsg isBinary sha w1 of
                Inl e \<Rightarrow> (Inl e, w1)
              | Inr q \<Rightarrow>
                  (case do_fetch pf q w1 of
                     (Inl e, w2) \<Rightarrow> (Inl e, w2)
                   | (Inr res, w2) \<Rightarrow> (Inr (ok res), w2)))))"

text \<open>Whether an object has a member of the given name.\<close>

definition has_member :: "jsval \<Rightarrow> jsstring \<Rightarrow> bool" where
  "has_member v k = (case v of JObj ps \<Rightarrow> map_of ps k \<noteq> None | _ \<Rightarrow> False)"

subsection \<open>Upload match image\<close>

definition raw_url :: "platform \<Rightarrow> jsstring \<Rightarrow> world \<Rightarrow> js_error + jsstring" where
  "raw_url pf path w =
     bind_err (member (config w) (lit ''owner'')) (\<lambda>ow.
     bind_err (ToString (number_text pf) ow) (\<lambda>owner.
     bind_err (member (config w) (lit ''repo'')) (\<lambda>rp.
     bind_err (ToString (number_text pf) rp) (\<lambda>repo.
     bind_err (branch_ref pf w) (\<lambda>branch.
       Inr (lit ''https://raw.githubusercontent.com/'' @ owner @ lit ''/'' @ repo @ lit ''/'' @
            branch @ lit ''/'' @ path))))))"

definition uploadMatchImage ::
  "platform \<Rightarrow> jsstring \<Rightarrow> jsstring \<Rightarrow> world \<Rightarrow> jsstring option \<times> world" where
  "uploadMatchImage pf base64Data filename w =
     (if \<not> isConnected w then (None, w)
      else
        (let path = lit ''match-images/'' @ filename;
             failed = hideSyncBar (lit ''error'') (lit ''Image upload failed'')
         in case commitFile pf path base64Data
                   (0xD83D # 0xDCF8 # lit '' Match screenshot: '' @ filename) True
                   (showSyncBar (lit ''Uploading match screenshot'' @ [0x2026]) w) of
              (Inl e, w1) \<Rightarrow> (None, failed w1)
            | (Inr False, w1) \<Rightarrow> (None, failed w1)
            | (Inr True, w1) \<Rightarrow>
                (let w2 = hideSyncBar (lit ''ok'') (lit ''Screenshot saved to GitHub'') w1
                 in case raw_url pf path w2 of
                      Inl e \<Rightarrow> (None, failed w2)
                    | Inr url \<Rightarrow> (Some url, w2))))"

subsection \<open>Load data from GitHub\<close>

definition snapshot_request :: "platform \<Rightarrow> world \<Rightarrow> js_error + request" where
  "snapshot_request pf w =
     bind_err (apiBase pf w) (\<lambda>base.
     bind_err (branch_ref pf w) (\<lambda>branch.
     bind_err (headers pf w) (\<lambda>hs.
       Inr \<lparr>req_method = GET,
            req_url = base @ lit ''/contents/data/league-data.json?ref='' @ branch,
            req_headers = hs, req_body = None\<rparr>)))"

text \<open>\<open>file.content.replace(/\n/g, '')\<close>: only a string has \<open>replace\<close>.\<close>

definition content_without_newlines :: "jsval \<Rightarrow> js_error + jsstring" where
  "content_without_newlines file =
     bind_err (member file (lit ''content'')) (\<lambda>c.
       case c of JStr s \<Rightarrow> Inr (filter (\<lambda>x. x \<noteq> 0x0A) s) | _ \<Rightarrow> Inl TypeError)"

definition decode_text :: "jsstring \<Rightarrow> js_error + jsstring" where
  "decode_text x = bind_err (atob x) (\<lambda>b. decodeURIComponent (escape b))"

definition loadRemoteData :: "platform \<Rightarrow> world \<Rightarrow> jsval \<times> world" where
  "loadRemoteData pf w =
     (if \<not> isConnected w then (JNull, w)
      else
        (let w0 = showSyncBar (lit ''Loading data from GitHub'' @ [0x2026]) w;
             failed = hideSyncBar (lit ''error'') (lit ''Could not load remote data'')
         in case snapshot_request pf w0 of
              Inl e \<Rightarrow> (JNull, failed w0)
            | Inr q \<Rightarrow>
                (case do_fetch pf q w0 of
                   (Inl e, w1) \<Rightarrow> (JNull, failed w1)
                 | (Inr res, w1) \<Rightarrow>
                     if \<not> ok res then
                       (JNull, hideSyncBar (lit ''ok'')
                                 (lit ''No remote data yet '' @ [0x2014] @ lit '' starting fresh'') w1)
                     else
                       (case bind_err (json res) (\<lambda>file.
                             bind_err (content_without_newlines file) (\<lambda>c.
                             bind_err (decode_text c) JSON_parse)) of
                          Inl e \<Rightarrow> (JNull, failed w1)
                        | Inr data \<Rightarrow>
                            (data, hideSyncBar (lit ''ok'') (lit ''Data loaded from GitHub'') w1)))))"

subsection \<open>Test connection\<close>

record sync_result =
  result_ok :: bool
  msg :: jsstring

definition identity_request :: "platform \<Rightarrow> world \<Rightarrow> js_error + request" where
  "identity_request pf w =
     bind_err (apiBase pf w) (\<lambda>base.
     bind_err (headers pf w) (\<lambda>hs.
       Inr \<lparr>req_method = GET, req_url = base, req_headers = hs, req_body = None\<rparr>))"

definition testConnection :: "platform \<Rightarrow> world \<Rightarrow> sync_result \<times> world" where
  "testConnection pf w =
     (if \<not> isConnected w then (\<lparr>result_ok = False, msg = lit ''Not configured''\<rparr>, w)
      else
        (case identity_request pf w of
           Inl e \<Rightarrow> (\<lparr>result_ok = False, msg = lit ''Network error''\<rparr>, w)
         | Inr q \<Rightarrow>
             (case do_fetch pf q w of
                (Inl e, w1) \<Rightarrow> (\<lparr>result_ok = False, msg = lit ''Network error''\<rparr>, w1)
              | (Inr res, w1) \<Rightarrow>
                  if status res = 200 then (\<lparr>result_ok = True, msg = lit ''Connected!''\<rparr>, w1)
                  else if status res = 401 then (\<lparr>result_ok = False, msg = lit ''Invalid token''\<rparr>, w1)
                  else if status res = 404 then (\<lparr>result_ok = False, msg = lit ''Repo not found''\<rparr>, w1)
                  else (\<lparr>result_ok = False, msg = lit ''Error '' @ decimal (status res)\<rparr>, w1))))"

section \<open>Sample states\<close>

text \<open>
  Concrete states and stores on which the theorems below are exercised: the config
  \<open>{owner: "a", repo: "b", branch: "main", token: "t"}\<close>, a state without config, a store
  that answers every read with a given status and every write with a given outcome, a
  transport that always fails, and a state whose stored item was not written by \<open>save\<close>:
  its owner is a single space.
\<close>

definition sample_config :: jsval where
  "sample_config = config_object (lit ''a'') (lit ''b'') (lit ''main'') (lit ''t'')"

definition sample_world :: world where
  "sample_world = \<lparr>config = sample_config, local_storage = None, indicator = StatusLocal,
                    sync_bar = [], sent = []\<rparr>"

definition offline_world :: world where
  "offline_world = \<lparr>config = JNull, local_storage = None, indicator = StatusLocal,
                     sync_bar = [], sent = []\<rparr>"

definition sample_store :: "nat \<Rightarrow> js_error + response \<Rightarrow> platform" where
  "sample_store read_status write_result =
     \<lparr>number_text = (\<lambda>n. []),
      fetch = (\<lambda>earlier q. if req_method q = GET
                             then Inr \<lparr>status = read_status,
                                      json = Inr (JObj [(lit ''sha'', JStr (lit ''abc''))])\<rparr>
                             else write_result)\<rparr>"

definition failing_store :: platform where
  "failing_store = \<lparr>number_text = (\<lambda>n. []), fetch = (\<lambda>earlier q. Inl FetchFailed)\<rparr>"

definition accepted :: "js_error + response" where
  "accepted = Inr \<lparr>status = 201, json = Inr JNull\<rparr>"

definition conflict :: "js_error + response" where
  "conflict = Inr \<lparr>status = 409, json = Inr JNull\<rparr>"



lemmas sample_defs = sample_world_def sample_config_def config_object_def offline_world_def
  sample_store_def failing_store_def lit_def

lemmas request_defs = apiBase_def headers_def branch_ref_def member_def sha_request_def
  put_request_def write_request_def snapshot_request_def identity_request_def raw_url_def

lemma sample_connected: "isConnected sample_world"
  by (simp add: isConnected_def sample_defs opt_member_def)

lemma offline_not_connected: "\<not> isConnected offline_world"
  by (simp add: isConnected_def sample_defs opt_member_def)

section \<open>Facts about the model\<close>

subsection \<open>Hexadecimal digits and JSON text\<close>

lemma unat_code_unit: "n < 65536 \<Longrightarrow> unat (code_unit n) = n"
  by (simp add: code_unit_def unat_of_nat)

lemma code_unit_unat [simp]: "code_unit (unat c) = c"
  by (simp add: code_unit_def)

lemma hex_value_digit: "d < 16 \<Longrightarrow> hex_value (hex_digit u d) = Some d"
  by (cases u) (auto simp: hex_value_def hex_digit_def Let_def unat_code_unit)

lemma hex_number_hex2: "n < 256 \<Longrightarrow> hex_number (hex2 u n) = Some n"
proof -
  assume n: "n < 256"
  then have "n div 16 < 16" by simp
  then have "n div 16 mod 16 * 16 + n mod 16 = n"
    by simp
  then show ?thesis
    by (simp add: hex2_def hex_value_digit)
qed

lemma hex_number_append:
  "hex_number xs = Some a \<Longrightarrow> hex_number ys = Some b \<Longrightarrow>
   hex_number (xs @ ys) = Some (a * 16 ^ length ys + b)"
  by (induction xs arbitrary: a)
    (auto simp: power_add algebra_simps split: option.splits)

lemma hex_number_hex4: "n < 65536 \<Longrightarrow> hex_number (hex4 u n) = Some n"
proof -
  assume n: "n < 65536"
  then have "n div 256 < 256" by simp
  then have "hex_number (hex2 u (n div 256) @ hex2 u (n mod 256)) =
               Some (n div 256 * 16 ^ length (hex2 u (n mod 256)) + n mod 256)"
    by (intro hex_number_append hex_number_hex2) simp_all
  then show ?thesis
    by (simp add: hex4_def) (simp add: hex2_def)
qed

lemma parse_string_unit:
  "parse_string (quote_unit c @ rest) = map_option (\<lambda>(s, t). (c # s, t)) (parse_string rest)"
proof -
  consider (two) "c = 0x08 \<or> c = 0x09 \<or> c = 0x0A \<or> c = 0x0C \<or> c = 0x0D \<or> c = 0x22 \<or> c = 0x5C"
    | (esc) "\<not> (c = 0x08 \<or> c = 0x09 \<or> c = 0x0A \<or> c = 0x0C \<or> c = 0x0D \<or> c = 0x22 \<or> c = 0x5C)"
        "c < 0x20 \<or> is_high_surrogate c \<or> is_low_surrogate c"
    | (plain) "\<not> (c = 0x08 \<or> c = 0x09 \<or> c = 0x0A \<or> c = 0x0C \<or> c = 0x0D \<or> c = 0x22 \<or> c = 0x5C)"
        "\<not> (c < 0x20 \<or> is_high_surrogate c \<or> is_low_surrogate c)"
    by blast
  then show ?thesis
  proof cases
    case two
    then show ?thesis
      by (elim disjE) (simp_all add: quote_unit_def simple_escape_def)
  next
    case esc
    have "unat c < 65536"
      using unsigned_less [of c, where 'a = nat] by simp
    from hex_number_hex4 [OF this, of False]
    have h: "hex_number (hex4 False (unat c)) = Some (unat c)" .
    from esc have q: "quote_unit c = [0x5C, 0x75] @ hex4 False (unat c)"
      by (simp add: quote_unit_def unicode_escape_def)
    show ?thesis
      unfolding q using h by (simp add: hex4_def hex2_def)
  next
    case plain
    then show ?thesis
      by (simp add: quote_unit_def)
  qed
qed

lemma surrogate_plain:
  assumes "is_high_surrogate c \<or> is_low_surrogate c"
  shows "c \<noteq> 0x22" "c \<noteq> 0x5C" "\<not> c < 0x20"
  using assms
  by (auto simp: is_high_surrogate_def is_low_surrogate_def word_le_nat_alt word_less_nat_alt)

lemma parse_string_quote_units:
  "parse_string (quote_units s @ 0x22 # rest) = Some (s, rest)"
proof (induction s rule: quote_units.induct)
  case 1
  show ?case by simp
next
  case (2 c)
  show ?case by (simp add: parse_string_unit)
next
  case (3 c d cs)
  show ?case
  proof (cases "is_high_surrogate c \<and> is_low_surrogate d")
    case True
    with 3 show ?thesis
      using surrogate_plain [of c] surrogate_plain [of d] by simp
  next
    case False
    then have "quote_units (c # d # cs) = quote_unit c @ quote_units (d # cs)"
      by auto
    with 3 False show ?thesis
      by (simp only: append_assoc parse_string_unit) simp
  qed
qed

lemma parse_value_quoted:
  "parse_value (QuoteJSONString s @ rest) = Some (JStr s, rest)"
  by (simp add: QuoteJSONString_def parse_string_quote_units)

lemma skip_ws_no_space: "\<not> is_json_space c \<Longrightarrow> skip_ws (c # cs) = c # cs"
  by (simp add: skip_ws_def)

lemma json_marks_no_space:
  "\<not> is_json_space 0x22" "\<not> is_json_space 0x2C" "\<not> is_json_space 0x7D" "\<not> is_json_space 0x3A"
  by (simp_all add: is_json_space_def)

text \<open>One member whose value is a string, followed by another member or by the closing brace.\<close>

lemma parse_members_comma:
  "parse_members (QuoteJSONString k @ 0x3A # QuoteJSONString v @ 0x2C # QuoteJSONString k' @ rest) acc =
     parse_members (QuoteJSONString k' @ rest) (obj_put acc k (JStr v))"
  by (subst parse_members.simps)
    (simp add: QuoteJSONString_def eat_def parse_string_quote_units skip_ws_no_space
      json_marks_no_space parse_value_quoted [unfolded QuoteJSONString_def, simplified])

lemma parse_members_end:
  "parse_members (QuoteJSONString k @ 0x3A # QuoteJSONString v @ 0x7D # rest) acc =
     Some (JObj (obj_put acc k (JStr v)), rest)"
  by (subst parse_members.simps)
    (simp add: QuoteJSONString_def eat_def parse_string_quote_units skip_ws_no_space
      json_marks_no_space parse_value_quoted [unfolded QuoteJSONString_def, simplified])

lemma parse_value_object:
  "parse_value (0x7B # QuoteJSONString k @ rest) = parse_members (QuoteJSONString k @ rest) []"
  by (subst parse_value.simps)
    (simp add: QuoteJSONString_def eat_def skip_ws_no_space json_marks_no_space)

lemma config_object_text:
  "JSON_stringify nts (config_object owner repo branch token) =
     0x7B # QuoteJSONString (lit ''owner'') @ 0x3A # QuoteJSONString owner @
     0x2C # QuoteJSONString (lit ''repo'') @ 0x3A # QuoteJSONString repo @
     0x2C # QuoteJSONString (lit ''branch'') @ 0x3A # QuoteJSONString branch @
     0x2C # QuoteJSONString (lit ''token'') @ 0x3A # QuoteJSONString token @ [0x7D]"
  by (simp add: JSON_stringify_def config_object_def)

lemma config_object_members:
  "obj_put (obj_put (obj_put (obj_put [] (lit ''owner'') a) (lit ''repo'') b) (lit ''branch'') c)
     (lit ''token'') d =
   [(lit ''owner'', a), (lit ''repo'', b), (lit ''branch'', c), (lit ''token'', d)]"
  by (simp add: lit_def)

text \<open>What \<open>save\<close> writes, \<open>JSON.parse\<close> reads back.\<close>

lemma JSON_parse_config_object:
  "JSON_parse (JSON_stringify nts (config_object owner repo branch token)) =
     Inr (config_object owner repo branch token)"
proof -
  have "parse_value (JSON_stringify nts (config_object owner repo branch token)) =
          Some (config_object owner repo branch token, [])"
    unfolding config_object_text parse_value_object parse_members_comma parse_members_end
      config_object_members
    by (simp add: config_object_def)
  moreover have "skip_ws (JSON_stringify nts (config_object owner repo branch token)) =
                   JSON_stringify nts (config_object owner repo branch token)"
    unfolding config_object_text by (simp add: skip_ws_def is_json_space_def)
  ultimately show ?thesis
    by (simp add: JSON_parse_def skip_ws_def)
qed

lemma config_object_text_nonempty:
  "JSON_stringify nts (config_object owner repo branch token) \<noteq> []"
  unfolding config_object_text by simp

subsection \<open>Base64\<close>

lemma b64_char_props:
  assumes "n < 64"
  shows "b64_value (b64_char n) = n" "is_b64_char (b64_char n)"
    "b64_char n \<noteq> 0x3D" "\<not> is_ascii_space (b64_char n)"
proof -
  consider "n < 26" | "26 \<le> n" "n < 52" | "52 \<le> n" "n < 62" | "n = 62" | "n = 63"
    using assms by linarith
  then have "b64_value (b64_char n) = n \<and> is_b64_char (b64_char n) \<and>
             b64_char n \<noteq> 0x3D \<and> \<not> is_ascii_space (b64_char n)"
  proof cases
    case 1
    then have u: "unat (code_unit (65 + n)) = 65 + n"
      by (simp add: unat_code_unit)
    have "code_unit (65 + n) \<noteq> x" if "unat x < 65" for x
      using u that by auto
    with 1 u show ?thesis
      by (auto simp: b64_char_def b64_value_def is_b64_char_def is_alnum_def is_ascii_space_def
          word_le_nat_alt Let_def)
  next
    case 2
    then have u: "unat (code_unit (71 + n)) = 71 + n"
      by (simp add: unat_code_unit)
    have "code_unit (71 + n) \<noteq> x" if "unat x < 97" for x
      using u 2 that by auto
    with 2 u show ?thesis
      by (auto simp: b64_char_def b64_value_def is_b64_char_def is_alnum_def is_ascii_space_def
          word_le_nat_alt Let_def)
  next
    case 3
    then have u: "unat (code_unit (n - 4)) = n - 4"
      by (simp add: unat_code_unit)
    have "code_unit (n - 4) \<noteq> x" if "unat x < 48 \<or> 57 < unat x" for x
      using u 3 that by auto
    with 3 u show ?thesis
      by (auto simp: b64_char_def b64_value_def is_b64_char_def is_alnum_def is_ascii_space_def
          word_le_nat_alt Let_def)
  next
    case 4
    then show ?thesis
      by (simp add: b64_char_def b64_value_def is_b64_char_def is_alnum_def is_ascii_space_def)
  next
    case 5
    then show ?thesis
      by (simp add: b64_char_def b64_value_def is_b64_char_def is_alnum_def is_ascii_space_def)
  qed
  then show "b64_value (b64_char n) = n" "is_b64_char (b64_char n)"
    "b64_char n \<noteq> 0x3D" "\<not> is_ascii_space (b64_char n)"
    by simp_all
qed


text \<open>The encoding without its padding, which is what \<open>atob\<close> decodes.\<close>

fun b64_plain :: "nat list \<Rightarrow> jsstring" where
  "b64_plain [] = []"
| "b64_plain [a] = [b64_char (a div 4), b64_char (a mod 4 * 16)]"
| "b64_plain [a, b] =
     [b64_char (a div 4), b64_char (a mod 4 * 16 + b div 16), b64_char (b mod 16 * 4)]"
| "b64_plain (a # b # c # bs) =
     [b64_char (a div 4), b64_char (a mod 4 * 16 + b div 16),
      b64_char (b mod 16 * 4 + c div 64), b64_char (c mod 64)] @ b64_plain bs"

lemma sextets:
  fixes a b c :: nat
  assumes "a < 256" "b < 256" "c < 256"
  shows "a div 4 < 64" "a mod 4 * 16 < 64" "a mod 4 * 16 + b div 16 < 64"
    "b mod 16 * 4 < 64" "b mod 16 * 4 + c div 64 < 64" "c mod 64 < 64"
proof -
  have "a mod 4 < 4" "b mod 16 < 16" "b div 16 < 16" "c div 64 < 4"
    using assms by simp_all
  then show "a mod 4 * 16 < 64" "a mod 4 * 16 + b div 16 < 64"
    "b mod 16 * 4 < 64" "b mod 16 * 4 + c div 64 < 64"
    by linarith+
  show "a div 4 < 64" "c mod 64 < 64"
    using assms by simp_all
qed

lemma octets:
  fixes a b c :: nat
  assumes "b < 256" "c < 256"
  shows "a div 4 * 4 + (a mod 4 * 16 + b div 16) div 16 = a \<and>
    a div 4 * 4 + (a mod 4 * 16) div 16 = a \<and>
    (a mod 4 * 16 + b div 16) mod 16 * 16 + (b mod 16 * 4 + c div 64) div 4 = b \<and>
    (a mod 4 * 16 + b div 16) mod 16 * 16 + (b mod 16 * 4) div 4 = b \<and>
    (b mod 16 * 4 + c div 64) mod 4 * 64 + c mod 64 = c"
proof -
  have b: "b div 16 < 16" and c: "c div 64 < 4"
    using assms by simp_all
  have x: "a mod 4 * 16 + b div 16 = b div 16 + 16 * (a mod 4)"
    and y: "b mod 16 * 4 + c div 64 = c div 64 + 4 * (b mod 16)"
    by simp_all
  have "a div 4 * 4 + (a mod 4 * 16 + b div 16) div 16 = a"
    unfolding x using b by simp
  moreover have "a div 4 * 4 + (a mod 4 * 16) div 16 = a"
    by simp
  moreover have "(a mod 4 * 16 + b div 16) mod 16 * 16 + (b mod 16 * 4 + c div 64) div 4 = b"
    unfolding x y using b c by simp
  moreover have "(a mod 4 * 16 + b div 16) mod 16 * 16 + (b mod 16 * 4) div 4 = b"
    unfolding x using b by simp
  moreover have "(b mod 16 * 4 + c div 64) mod 4 * 64 + c mod 64 = c"
    unfolding y using c by simp
  ultimately show ?thesis by blast
qed

lemma b64_decode_plain:
  "list_all (\<lambda>b. b < 256) bs \<Longrightarrow> b64_decode (map b64_value (b64_plain bs)) = bs"
proof (induction bs rule: b64_plain.induct)
  case 1
  show ?case by simp
next
  case (2 a)
  then show ?case
    using sextets [of a 0 0] octets [where a = a and b = 0 and c = 0] by (simp add: b64_char_props)
next
  case (3 a b)
  then show ?case
    using sextets [of a b 0] octets [where a = a and b = b and c = 0] by (simp add: b64_char_props)
next
  case (4 a b c bs)
  then show ?case
    using sextets [of a b c] octets [where a = a and b = b and c = c] by (simp add: b64_char_props)
qed

lemma b64_plain_chars:
  "list_all (\<lambda>b. b < 256) bs \<Longrightarrow> list_all is_b64_char (b64_plain bs)"
proof (induction bs rule: b64_plain.induct)
  case 1
  show ?case by simp
next
  case (2 a)
  then show ?case
    using sextets [of a 0 0] by (simp add: b64_char_props)
next
  case (3 a b)
  then show ?case
    using sextets [of a b 0] by (simp add: b64_char_props)
next
  case (4 a b c bs)
  then show ?case
    using sextets [of a b c] by (simp add: b64_char_props)
qed

lemma b64_plain_length: "length (b64_plain bs) mod 4 \<noteq> 1"
  by (induction bs rule: b64_plain.induct) simp_all

lemma b64_encode_length: "length (b64_encode bs) mod 4 = 0"
  by (induction bs rule: b64_encode.induct) simp_all

lemma b64_encode_no_space:
  "list_all (\<lambda>b. b < 256) bs \<Longrightarrow> filter (\<lambda>c. \<not> is_ascii_space c) (b64_encode bs) = b64_encode bs"
proof (induction bs rule: b64_encode.induct)
  case 1
  show ?case by simp
next
  case (2 a)
  then show ?case
    using sextets [of a 0 0] by (simp add: b64_char_props) (simp add: is_ascii_space_def)
next
  case (3 a b)
  then show ?case
    using sextets [of a b 0] by (simp add: b64_char_props) (simp add: is_ascii_space_def)
next
  case (4 a b c bs)
  then show ?case
    using sextets [of a b c] by (simp add: b64_char_props)
qed


lemma strip_padding_group:
  assumes "length xs = 4" and "length ys mod 4 = 0" and "ys \<noteq> []"
  shows "strip_padding (xs @ ys) = xs @ strip_padding ys"
proof -
  from assms(2,3) have l: "4 \<le> length ys"
    by (cases ys) (auto simp: mod_eq_0_iff_dvd dest: dvd_imp_le)
  then have d: "drop (length (xs @ ys) - 2) (xs @ ys) = drop (length ys - 2) ys"
    "drop (length (xs @ ys) - 1) (xs @ ys) = drop (length ys - 1) ys"
    "take (length (xs @ ys) - 2) (xs @ ys) = xs @ take (length ys - 2) ys"
    "take (length (xs @ ys) - 1) (xs @ ys) = xs @ take (length ys - 1) ys"
    using assms(1) by simp_all
  have m: "length (xs @ ys) mod 4 = 0"
    using assms(1,2) by simp
  show ?thesis
    unfolding strip_padding_def d m using l assms(2) by simp
qed

lemma strip_padding_b64_encode:
  "list_all (\<lambda>b. b < 256) bs \<Longrightarrow> strip_padding (b64_encode bs) = b64_plain bs"
proof (induction bs rule: b64_encode.induct)
  case 1
  show ?case by (simp add: strip_padding_def)
next
  case (2 a)
  show ?case by (simp add: strip_padding_def)
next
  case (3 a b)
  then have "b64_char (b mod 16 * 4) \<noteq> 0x3D"
    using sextets [of a b 0] by (simp add: b64_char_props)
  then show ?case by (simp add: strip_padding_def)
next
  case (4 a b c bs)
  let ?g = "[b64_char (a div 4), b64_char (a mod 4 * 16 + b div 16),
             b64_char (b mod 16 * 4 + c div 64), b64_char (c mod 64)]"
  from 4 have e: "b64_char (c mod 64) \<noteq> 0x3D"
    using sextets [of a b c] by (simp add: b64_char_props)
  show ?case
  proof (cases "b64_encode bs = []")
    case True
    then have "bs = []" by (cases bs rule: b64_encode.cases) simp_all
    with e show ?thesis by (simp add: strip_padding_def)
  next
    case False
    from 4 have "strip_padding (b64_encode bs) = b64_plain bs" by simp
    with False show ?thesis
      using strip_padding_group [of ?g "b64_encode bs"] by (simp add: b64_encode_length)
  qed
qed

lemma byte_units:
  assumes "list_all (\<lambda>b. b < 256) bs"
  shows "map unat (map code_unit bs) = bs" "\<not> list_ex (\<lambda>c. 0xFF < c) (map code_unit bs)"
proof -
  have "\<forall>b \<in> set bs. unat (code_unit b) = b"
    using assms by (auto simp: list_all_iff unat_code_unit)
  then show "map unat (map code_unit bs) = bs"
    by (simp add: map_idI)
  have "\<forall>b \<in> set bs. \<not> 0xFF < code_unit b"
    using assms by (auto simp: list_all_iff unat_code_unit word_less_nat_alt)
  then show "\<not> list_ex (\<lambda>c. 0xFF < c) (map code_unit bs)"
    by (simp add: list_ex_iff)
qed

text \<open>\<open>atob\<close> undoes \<open>btoa\<close> on every string of bytes.\<close>

lemma btoa_bytes:
  "list_all (\<lambda>b. b < 256) bs \<Longrightarrow> btoa (map code_unit bs) = Inr (b64_encode bs)"
  unfolding btoa_def by (simp only: byte_units if_False)

lemma atob_b64_encode:
  "list_all (\<lambda>b. b < 256) bs \<Longrightarrow> atob (b64_encode bs) = Inr (map code_unit bs)"
  using b64_plain_length [of bs]
  by (simp add: atob_def Let_def b64_encode_no_space strip_padding_b64_encode
      b64_plain_chars b64_decode_plain)

subsection \<open>UTF-8 through the percent escapes\<close>

text \<open>The UTF-8 bytes of a well-formed string.\<close>

fun utf8_string :: "jsstring \<Rightarrow> nat list" where
  "utf8_string [] = []"
| "utf8_string [c] = utf8_bytes (unat c)"
| "utf8_string (c # d # cs) =
     (if is_high_surrogate c \<and> is_low_surrogate d
      then utf8_bytes (pair_code_point c d) @ utf8_string cs
      else utf8_bytes (unat c) @ utf8_string (d # cs))"

lemma unat_16: "unat (c :: jschar) < 65536"
  using unsigned_less [of c, where 'a = nat] by simp

lemma surrogate_unat:
  "is_high_surrogate c \<longleftrightarrow> 0xD800 \<le> unat c \<and> unat c \<le> 0xDBFF"
  "is_low_surrogate c \<longleftrightarrow> 0xDC00 \<le> unat c \<and> unat c \<le> 0xDFFF"
  by (simp_all add: is_high_surrogate_def is_low_surrogate_def word_le_nat_alt)

lemma pair_code_point_range:
  assumes "is_high_surrogate c" "is_low_surrogate d"
  shows "0x10000 \<le> pair_code_point c d" "pair_code_point c d < 0x110000"
  using assms unfolding surrogate_unat pair_code_point_def by linarith+

lemma utf8_bytes_bytes: "v < 0x110000 \<Longrightarrow> list_all (\<lambda>b. b < 256) (utf8_bytes v)"
proof -
  assume v: "v < 0x110000"
  have m: "v mod 64 < 64" "v div 64 mod 64 < 64" "v div 4096 mod 64 < 64"
    by simp_all
  have d: "v div 262144 < 5"
    using v by simp
  have "v < 0x800 \<Longrightarrow> v div 64 < 32" "v < 0x10000 \<Longrightarrow> v div 4096 < 16"
    by simp_all
  with m d show ?thesis
    unfolding utf8_bytes_def by (auto simp: add.commute)
qed

lemma utf8_string_bytes: "list_all (\<lambda>b. b < 256) (utf8_string s)"
proof (induction s rule: utf8_string.induct)
  case 1
  show ?case by simp
next
  case (2 c)
  show ?case
    using unat_16 [of c] by (simp add: utf8_bytes_bytes)
next
  case (3 c d cs)
  then show ?case
    using unat_16 [of c] pair_code_point_range [of c d] by (auto simp: utf8_bytes_bytes)
qed


lemma hex_digit_upper_unat: "d < 16 \<Longrightarrow> unat (hex_digit True d) < 71"
  by (auto simp: hex_digit_def unat_code_unit)

lemma unescape_plain: "c \<noteq> 0x25 \<Longrightarrow> unescape (c # r) = c # unescape r"
  by simp

lemma unescape_percent:
  assumes "b < 256"
  shows "unescape (percent b @ r) = code_unit b # unescape r"
proof -
  have "unat (hex_digit True (b div 16 mod 16)) < 71"
    by (rule hex_digit_upper_unat) simp
  then have u: "hex_digit True (b div 16 mod 16) \<noteq> 0x75"
    by auto
  have h: "hex_number [hex_digit True (b div 16 mod 16), hex_digit True (b mod 16)] = Some b"
    using hex_number_hex2 [OF assms, of True] by (simp add: hex2_def)
  show ?thesis
    using u h by (simp add: percent_def hex2_def)
qed

lemma unescape_percents:
  "list_all (\<lambda>b. b < 256) bs \<Longrightarrow>
   unescape (concat (map percent bs) @ r) = map code_unit bs @ unescape r"
  by (induction bs) (simp_all add: unescape_percent)

lemma uri_unreserved_ascii:
  assumes "uri_unreserved c"
  shows "c \<noteq> 0x25" "unat c < 0x80" "\<not> is_high_surrogate c" "\<not> is_low_surrogate c"
proof -
  from assms have a: "unat c < 0x80 \<and> unat c \<noteq> 0x25"
    by (auto simp: uri_unreserved_def is_alnum_def word_le_nat_alt)
  then show "c \<noteq> 0x25" by auto
  from a show "unat c < 0x80" by simp
  from a show "\<not> is_high_surrogate c" "\<not> is_low_surrogate c"
    by (simp_all add: surrogate_unat)
qed

lemma utf8_bytes_ascii: "v < 0x80 \<Longrightarrow> utf8_bytes v = [v]"
  by (simp add: utf8_bytes_def)

text \<open>One step of \<open>encodeURIComponent\<close>, seen through \<open>unescape\<close>.\<close>

lemma encode_unit:
  assumes "\<not> is_high_surrogate c" "\<not> is_low_surrogate c"
    and "encodeURIComponent cs = Inr e" and "unescape e = map code_unit bs"
  shows "\<exists>e'. encodeURIComponent (c # cs) = Inr e' \<and>
           unescape e' = map code_unit (utf8_bytes (unat c) @ bs)"
proof (cases "uri_unreserved c")
  case True
  then show ?thesis
    using assms uri_unreserved_ascii [OF True]
    by (simp add: utf8_bytes_ascii)
next
  case False
  have "list_all (\<lambda>b. b < 256) (utf8_bytes (unat c))"
    using unat_16 [of c] by (simp add: utf8_bytes_bytes)
  with False assms show ?thesis
    by (simp add: unescape_percents)
qed

lemma encode_pair:
  assumes "is_high_surrogate c" "is_low_surrogate d"
    and "encodeURIComponent cs = Inr e" and "unescape e = map code_unit bs"
  shows "\<exists>e'. encodeURIComponent (c # d # cs) = Inr e' \<and>
           unescape e' = map code_unit (utf8_bytes (pair_code_point c d) @ bs)"
proof -
  have n: "\<not> uri_unreserved c" "\<not> is_low_surrogate c"
    using assms(1) uri_unreserved_ascii(3) [of c] by (auto simp: surrogate_unat)
  have "list_all (\<lambda>b. b < 256) (utf8_bytes (pair_code_point c d))"
    using pair_code_point_range [OF assms(1,2)] by (simp add: utf8_bytes_bytes)
  with n assms show ?thesis
    by (simp add: unescape_percents)
qed

lemma encodeURIComponent_utf8:
  "well_formed s \<Longrightarrow>
   \<exists>e. encodeURIComponent s = Inr e \<and> unescape e = map code_unit (utf8_string s)"
proof (induction s rule: well_formed.induct)
  case 1
  show ?case by simp
next
  case (2 c)
  then show ?case
    using encode_unit [of c "[]" "[]" "[]"] by simp
next
  case (3 c d cs)
  show ?case
  proof (cases "is_high_surrogate c")
    case True
    with 3 obtain e where "encodeURIComponent cs = Inr e"
      "unescape e = map code_unit (utf8_string cs)"
      by auto
    from encode_pair [OF True _ this] 3(3) True show ?thesis
      by simp
  next
    case False
    with 3 obtain e where "encodeURIComponent (d # cs) = Inr e"
      "unescape e = map code_unit (utf8_string (d # cs))"
      by auto
    from encode_unit [OF False _ this] 3(3) False show ?thesis
      by simp
  qed
qed

lemma escape_plain_ascii:
  assumes "escape_plain c"
  shows "c \<noteq> 0x25" "unat c < 0x80"
proof -
  from assms have a: "unat c < 0x80 \<and> unat c \<noteq> 0x25"
    by (auto simp: escape_plain_def is_alnum_def word_le_nat_alt)
  then show "c \<noteq> 0x25" by auto
  from a show "unat c < 0x80" by simp
qed

lemma escape_unit_byte:
  assumes "b < 256"
  shows "escape_unit (code_unit b) =
           (if escape_plain (code_unit b) then [code_unit b] else percent b)"
  using assms by (simp add: escape_unit_def percent_def word_less_nat_alt unat_code_unit)

lemma escape_unit_high_byte:
  assumes "0x80 \<le> b" "b < 256"
  shows "escape_unit (code_unit b) = percent b"
proof -
  have "\<not> escape_plain (code_unit b)"
    using escape_plain_ascii(2) [of "code_unit b"] assms by (auto simp: unat_code_unit)
  then show ?thesis
    by (simp add: escape_unit_byte assms)
qed

lemma escape_high_bytes:
  "list_all (\<lambda>b. 0x80 \<le> b \<and> b < 256) bs \<Longrightarrow>
   escape (map code_unit bs) = concat (map percent bs)"
  by (induction bs) (simp_all add: escape_def escape_unit_high_byte)

lemma escape_append: "escape (xs @ ys) = escape xs @ escape ys"
  by (simp add: escape_def)

lemma decode_plain:
  "c \<noteq> 0x25 \<Longrightarrow>
   decodeURIComponent (c # r) = bind_err (decodeURIComponent r) (\<lambda>t. Inr (c # t))"
  by simp

lemma drop_two_more: "drop (2 + k) (a # b # r) = drop k r"
  by (simp add: drop_Cons')

text \<open>One step of \<open>decodeURIComponent\<close> at an escaped byte.\<close>

lemma decode_percent:
  assumes "b < 256"
  shows "decodeURIComponent (percent b @ r) =
     (if leading_ones b = 0 then bind_err (decodeURIComponent r) (\<lambda>t. Inr (code_unit b # t))
      else if leading_ones b = 1 \<or> 4 < leading_ones b then Inl URIError
      else
        (case read_escapes (leading_ones b - 1) r of
           None \<Rightarrow> Inl URIError
         | Some bs \<Rightarrow>
             (case utf8_decode (b # bs) of
                None \<Rightarrow> Inl URIError
              | Some v \<Rightarrow>
                  bind_err (decodeURIComponent (drop (3 * (leading_ones b - 1)) r))
                    (\<lambda>t. Inr (utf16_units v @ t)))))"
proof -
  have h: "hex_number [hex_digit True (b div 16 mod 16), hex_digit True (b mod 16)] = Some b"
    using hex_number_hex2 [OF assms, of True] by (simp add: hex2_def)
  show ?thesis
    using h
    by (auto simp: percent_def hex2_def Let_def drop_two_more
        simp del: hex_number.simps split: option.splits)
qed

lemma read_escapes_percents:
  "list_all (\<lambda>b. b < 256) bs \<Longrightarrow>
   read_escapes (length bs) (concat (map percent bs) @ r) = Some bs"
proof (induction bs)
  case Nil
  show ?case by simp
next
  case (Cons b bs)
  then have "hex_number [hex_digit True (b div 16 mod 16), hex_digit True (b mod 16)] = Some b"
    using hex_number_hex2 [of b True] by (simp add: hex2_def)
  with Cons show ?case
    by (simp add: percent_def hex2_def del: hex_number.simps)
qed

lemma length_percents: "length (concat (map percent bs)) = 3 * length bs"
  by (induction bs) (simp_all add: percent_def hex2_def)

lemma drop_percents: "drop (3 * length bs) (concat (map percent bs) @ r) = r"
  by (simp add: length_percents)

lemma div_64_twice: "(v::nat) div 4096 = v div 64 div 64" "v div 262144 = v div 64 div 64 div 64"
  by (simp_all add: div_mult2_eq)

lemma shift_64: "(a::nat) div 64 * 4096 + a mod 64 * 64 = a * 64"
proof -
  have "(x * 64 + y) * 64 = x * 4096 + y * 64" for x y :: nat
    by (simp add: add_mult_distrib)
  from this [of "a div 64" "a mod 64"] show ?thesis
    by simp
qed

lemma join_64:
  fixes v :: nat
  shows "v div 64 * 64 + v mod 64 = v"
    "v div 4096 * 4096 + v div 64 mod 64 * 64 + v mod 64 = v"
    "v div 262144 * 262144 + v div 4096 mod 64 * 4096 + v div 64 mod 64 * 64 + v mod 64 = v"
proof -
  show "v div 64 * 64 + v mod 64 = v"
    by simp
  show b: "v div 4096 * 4096 + v div 64 mod 64 * 64 + v mod 64 = v"
    using shift_64 [of "v div 64"] by (simp add: div_64_twice)
  have "v div 64 div 64 div 64 * 4096 + v div 64 div 64 mod 64 * 64 = v div 64 div 64 * 64"
    by (rule shift_64)
  then have "(v div 64 div 64 div 64 * 4096 + v div 64 div 64 mod 64 * 64) * 64 =
             v div 64 div 64 * 64 * 64"
    by (rule arg_cong)
  then have "v div 64 div 64 div 64 * 262144 + v div 64 div 64 mod 64 * 4096 =
             v div 64 div 64 * 4096"
    by (simp add: add_mult_distrib)
  then show "v div 262144 * 262144 + v div 4096 mod 64 * 4096 + v div 64 mod 64 * 64 + v mod 64 = v"
    using shift_64 [of "v div 64"] by (simp add: div_64_twice)
qed

text \<open>
  The bytes of a code point beyond ASCII: a lead byte that announces how many follow,
  all of them escaped by \<open>escape\<close>, and together a well-formed sequence.
\<close>

lemma utf8_bytes_multi:
  assumes "0x80 \<le> v" "v < 0x110000" "\<not> (0xD800 \<le> v \<and> v \<le> 0xDFFF)"
  shows "\<exists>b bs. utf8_bytes v = b # bs \<and> leading_ones b = Suc (length bs) \<and>
           1 \<le> length bs \<and> length bs \<le> 3 \<and> utf8_decode (b # bs) = Some v \<and>
           list_all (\<lambda>x. 0x80 \<le> x \<and> x < 256) (b # bs)"
proof -
  have m: "v mod 64 < 128" "v div 64 mod 64 < 128" "v div 4096 mod 64 < 128"
    by (rule less_trans [of _ 64], simp, simp)+
  have m': "v mod 64 < 64" "v div 64 mod 64 < 64" "v div 4096 mod 64 < 64"
    by simp_all
  consider (two) "v < 0x800" | (three) "0x800 \<le> v" "v < 0x10000" | (four) "0x10000 \<le> v"
    by linarith
  then show ?thesis
  proof cases
    case two
    then have d: "v div 64 < 32" by simp
    have j: "(0xC0 + v div 64 - 0xC0) * 64 + (0x80 + v mod 64 - 0x80) = v"
      using join_64(1) [of v] by simp
    show ?thesis
      using two assms(1) d m j
      by (simp add: utf8_bytes_def leading_ones_def utf8_decode_def is_continuation_def Let_def)
  next
    case three
    then have d: "v div 4096 < 16" by simp
    have j: "(0xE0 + v div 4096 - 0xE0) * 4096 + (0x80 + v div 64 mod 64 - 0x80) * 64 +
             (0x80 + v mod 64 - 0x80) = v"
      using join_64(2) [of v] by simp
    show ?thesis
      using three assms d m j
      by (simp add: utf8_bytes_def leading_ones_def utf8_decode_def is_continuation_def Let_def)
  next
    case four
    have d: "v div 262144 < 5"
      using assms(2) by simp
    have j: "(0xF0 + v div 262144 - 0xF0) * 262144 + (0x80 + v div 4096 mod 64 - 0x80) * 4096 +
             (0x80 + v div 64 mod 64 - 0x80) * 64 + (0x80 + v mod 64 - 0x80) = v"
      using join_64(3) [of v] by simp
    show ?thesis
      using four assms d m j
      by (simp add: utf8_bytes_def leading_ones_def utf8_decode_def is_continuation_def Let_def)
  qed
qed

lemma utf16_units_unit: "utf16_units (unat c) = [c]"
  using unat_16 [of c] by (simp add: utf16_units_def)

lemma utf16_units_pair:
  assumes "is_high_surrogate c" "is_low_surrogate d"
  shows "utf16_units (pair_code_point c d) = [c, d]"
proof -
  define h where "h = unat c - 0xD800"
  define l where "l = unat d - 0xDC00"
  have h: "unat c = 0xD800 + h" and l: "unat d = 0xDC00 + l" and l4: "l < 0x400"
    using assms unfolding surrogate_unat h_def l_def by linarith+
  have p: "pair_code_point c d - 0x10000 = h * 0x400 + l"
    by (simp add: pair_code_point_def h l)
  have "(h * 0x400 + l) div 0x400 = h" "(h * 0x400 + l) mod 0x400 = l"
    using l4 by simp_all
  then have "0xD800 + (pair_code_point c d - 0x10000) div 0x400 = unat c"
    "0xDC00 + (pair_code_point c d - 0x10000) mod 0x400 = unat d"
    unfolding p by (simp_all add: h l)
  then show ?thesis
    using pair_code_point_range [OF assms] by (simp add: utf16_units_def)
qed

text \<open>Decoding the escaped bytes of one code point.\<close>

lemma decode_scalar:
  assumes "v < 0x110000" "\<not> (0xD800 \<le> v \<and> v \<le> 0xDFFF)"
  shows "decodeURIComponent (escape (map code_unit (utf8_bytes v)) @ r) =
           bind_err (decodeURIComponent r) (\<lambda>t. Inr (utf16_units v @ t))"
proof (cases "v < 0x80")
  case True
  then have b: "v < 256" and l: "leading_ones v = 0" and u: "utf16_units v = [code_unit v]"
    by (simp_all add: leading_ones_def utf16_units_def)
  show ?thesis
  proof (cases "escape_plain (code_unit v)")
    case True
    then show ?thesis
      using escape_plain_ascii(1) [OF True] \<open>v < 0x80\<close>
      by (simp add: utf8_bytes_ascii escape_def escape_unit_byte b u)
  next
    case False
    then show ?thesis
      using \<open>v < 0x80\<close>
      by (simp add: utf8_bytes_ascii escape_def escape_unit_byte b u decode_percent l
          del: decodeURIComponent.simps)
  qed
next
  case False
  with utf8_bytes_multi [of v] assms obtain b bs where
    e: "utf8_bytes v = b # bs" and n: "leading_ones b = Suc (length bs)"
    and k: "1 \<le> length bs" "length bs \<le> 3" and d: "utf8_decode (b # bs) = Some v"
    and h: "list_all (\<lambda>x. 0x80 \<le> x \<and> x < 256) (b # bs)"
    by auto
  from h have b: "b < 256" and bs: "list_all (\<lambda>x. x < 256) bs"
    by (auto simp: list_all_iff)
  have "escape (map code_unit (utf8_bytes v)) @ r = percent b @ concat (map percent bs) @ r"
    unfolding e using escape_high_bytes [OF h] by simp
  moreover have "leading_ones b \<noteq> 0" "\<not> (leading_ones b = 1 \<or> 4 < leading_ones b)"
    "leading_ones b - 1 = length bs"
    using n k by auto
  ultimately show ?thesis
    by (simp only: decode_percent [OF b] if_False read_escapes_percents [OF bs] option.case d
        drop_percents)
qed

lemma decodeURIComponent_utf8:
  "well_formed s \<Longrightarrow> decodeURIComponent (escape (map code_unit (utf8_string s))) = Inr s"
proof (induction s rule: well_formed.induct)
  case 1
  show ?case by (simp add: escape_def)
next
  case (2 c)
  then have "\<not> (0xD800 \<le> unat c \<and> unat c \<le> 0xDFFF)"
    by (auto simp: surrogate_unat)
  from decode_scalar [OF _ this, of "[]"] show ?case
    using unat_16 [of c] by (simp add: utf16_units_unit)
next
  case (3 c d cs)
  show ?case
  proof (cases "is_high_surrogate c")
    case True
    with 3 have d: "is_low_surrogate d" and ih: "decodeURIComponent (escape (map code_unit (utf8_string cs))) = Inr cs"
      by auto
    have "\<not> (0xD800 \<le> pair_code_point c d \<and> pair_code_point c d \<le> 0xDFFF)"
      using pair_code_point_range [OF True d] by simp
    from decode_scalar [OF pair_code_point_range(2) [OF True d] this,
        of "escape (map code_unit (utf8_string cs))"]
    show ?thesis
      using True d ih by (simp add: escape_append utf16_units_pair)
  next
    case False
    with 3 have l: "\<not> is_low_surrogate c"
      and ih: "decodeURIComponent (escape (map code_unit (utf8_string (d # cs)))) = Inr (d # cs)"
      by auto
    from False l have "\<not> (0xD800 \<le> unat c \<and> unat c \<le> 0xDFFF)"
      by (auto simp: surrogate_unat)
    from decode_scalar [OF _ this, of "escape (map code_unit (utf8_string (d # cs)))"]
    show ?thesis
      using unat_16 [of c] False ih by (simp add: escape_append utf16_units_unit)
  qed
qed

lemma encode_text_utf8:
  assumes "well_formed s"
  shows "encode_text s = Inr (b64_encode (utf8_string s))"
proof -
  from encodeURIComponent_utf8 [OF assms] obtain e where
    e: "encodeURIComponent s = Inr e" "unescape e = map code_unit (utf8_string s)"
    by blast
  show ?thesis
    by (simp add: encode_text_def e btoa_bytes utf8_string_bytes)
qed

subsection \<open>Config\<close>


lemma trim_Nil [simp]: "trim [] = []"
  by (simp add: trim_def)



lemma updateStatusUI_fields [simp]:
  "config (updateStatusUI w) = config w" "local_storage (updateStatusUI w) = local_storage w"
  "sync_bar (updateStatusUI w) = sync_bar w" "sent (updateStatusUI w) = sent w"
  by (simp_all add: updateStatusUI_def)

lemma isConnected_updateStatusUI [simp]: "isConnected (updateStatusUI w) = isConnected w"
  by (simp add: isConnected_def)

lemma updateStatusUI_idem: "updateStatusUI (updateStatusUI w) = updateStatusUI w"
  by (simp add: updateStatusUI_def isConnected_def)

lemma updateStatusUI_same_config:
  "updateStatusUI (updateStatusUI w\<lparr>config := config w\<rparr>) = updateStatusUI w"
  by (simp add: updateStatusUI_def isConnected_def)







subsection \<open>Requests\<close>

lemma bind_err_eq_Inr: "bind_err m f = Inr y \<longleftrightarrow> (\<exists>x. m = Inr x \<and> f x = Inr y)"
  by (cases m) simp_all

lemma bind_err_eq_Inl: "bind_err m f = Inl e \<longleftrightarrow> m = Inl e \<or> (\<exists>x. m = Inr x \<and> f x = Inl e)"
  by (cases m) simp_all

lemma showSyncBar_fields [simp]:
  "config (showSyncBar m w) = config w" "sent (showSyncBar m w) = sent w"
  "local_storage (showSyncBar m w) = local_storage w"
  "isConnected (showSyncBar m w) = isConnected w"
  by (simp_all add: showSyncBar_def isConnected_def)

lemma hideSyncBar_fields [simp]:
  "config (hideSyncBar s m w) = config w" "sent (hideSyncBar s m w) = sent w"
  "local_storage (hideSyncBar s m w) = local_storage w"
  by (simp_all add: hideSyncBar_def)

text \<open>The requests depend on the config alone.\<close>

lemma requests_config:
  assumes "config w' = config w"
  shows "apiBase pf w' = apiBase pf w" "headers pf w' = headers pf w"
    "branch_ref pf w' = branch_ref pf w" "sha_request pf path w' = sha_request pf path w"
    "put_request pf path body w' = put_request pf path body w"
    "write_request pf path content commitMsg isBinary sha w' =
       write_request pf path content commitMsg isBinary sha w"
    "snapshot_request pf w' = snapshot_request pf w"
    "identity_request pf w' = identity_request pf w"
    "raw_url pf path w' = raw_url pf path w"
  using assms by (simp_all add: request_defs)

lemma getFileSHA_config: "config (snd (getFileSHA pf path w)) = config w"
  by (auto simp: getFileSHA_def getFileSHA_try_def do_fetch_def split: sum.splits prod.splits)

lemma getFileSHA_tag: "fst (getFileSHA pf path w) = JNull \<or> ToBoolean (fst (getFileSHA pf path w))"
  by (auto simp: getFileSHA_def getFileSHA_try_def do_fetch_def or_else_def bind_err_eq_Inr
      split: sum.splits prod.splits if_splits)

lemma getFileSHA_try_sync_bar:
  "getFileSHA_try pf path (w\<lparr>sync_bar := y\<rparr>) =
     (fst (getFileSHA_try pf path w), (snd (getFileSHA_try pf path w))\<lparr>sync_bar := y\<rparr>)"
proof -
  have r: "sha_request pf path (w\<lparr>sync_bar := y\<rparr>) = sha_request pf path w"
    by (rule requests_config) simp
  show ?thesis
  proof (cases "sha_request pf path w")
    case (Inl e)
    then show ?thesis by (simp add: getFileSHA_try_def r)
  next
    case (Inr q)
    then show ?thesis
      by (cases "fetch pf (sent w) q") (simp_all add: getFileSHA_try_def r do_fetch_def)
  qed
qed

lemma getFileSHA_sync_bar:
  "getFileSHA pf path (w\<lparr>sync_bar := y\<rparr>) =
     (fst (getFileSHA pf path w), (snd (getFileSHA pf path w))\<lparr>sync_bar := y\<rparr>)"
  by (cases "getFileSHA_try pf path w"; cases "fst (getFileSHA_try pf path w)")
    (simp_all add: getFileSHA_def getFileSHA_try_sync_bar)

lemma commitFile_sync_bar:
  "commitFile pf path content commitMsg isBinary (w\<lparr>sync_bar := y\<rparr>) =
     (fst (commitFile pf path content commitMsg isBinary w),
      (snd (commitFile pf path content commitMsg isBinary w))\<lparr>sync_bar := y\<rparr>)"
proof (cases "isConnected w")
  case False
  then show ?thesis by (simp add: commitFile_def isConnected_def)
next
  case True
  then have t: "isConnected (w\<lparr>sync_bar := y\<rparr>)"
    by (simp add: isConnected_def)
  obtain sha w1 where g: "getFileSHA pf path w = (sha, w1)"
    by (cases "getFileSHA pf path w")
  have r: "write_request pf path content commitMsg isBinary sha (w1\<lparr>sync_bar := y\<rparr>) =
           write_request pf path content commitMsg isBinary sha w1"
    by (rule requests_config) simp
  show ?thesis
  proof (cases "write_request pf path content commitMsg isBinary sha w1")
    case (Inl e)
    then show ?thesis
      using True t by (simp add: commitFile_def getFileSHA_sync_bar g r)
  next
    case (Inr q)
    then show ?thesis
      using True t
      by (cases "fetch pf (sent w1) q")
        (simp_all add: commitFile_def getFileSHA_sync_bar g r do_fetch_def)
  qed
qed

lemma commitFile_config: "config (snd (commitFile pf path content commitMsg isBinary w)) = config w"
  using getFileSHA_config [of pf path w]
  by (auto simp: commitFile_def do_fetch_def split: sum.splits prod.splits)


lemma connected_not_nullish: "isConnected w \<Longrightarrow> \<not> nullish (config w)"
  by (auto simp: isConnected_def opt_member_def)

text \<open>The requests of the sample config, and the answers of the sample stores.\<close>

lemma sample_identity_request:
  "identity_request pf sample_world =
     Inr \<lparr>req_method = GET, req_url = lit ''https://api.github.com/repos/a/b'',
          req_headers = [(''Authorization'', lit ''token t''),
                         (''Accept'', lit ''application/vnd.github.v3+json''),
                         (''Content-Type'', lit ''application/json'')],
          req_body = None\<rparr>"
  by (simp add: request_defs sample_defs)

lemma sample_snapshot_request:
  "snapshot_request pf sample_world =
     Inr \<lparr>req_method = GET,
          req_url = lit ''https://api.github.com/repos/a/b/contents/data/league-data.json?ref=main'',
          req_headers = [(''Authorization'', lit ''token t''),
                         (''Accept'', lit ''application/vnd.github.v3+json''),
                         (''Content-Type'', lit ''application/json'')],
          req_body = None\<rparr>"
  by (simp add: request_defs sample_defs)

lemma sample_store_read:
  "req_method q = GET \<Longrightarrow>
   fetch (sample_store n x) earlier q =
     Inr \<lparr>status = n, json = Inr (JObj [(lit ''sha'', JStr (lit ''abc''))])\<rparr>"
  by (simp add: sample_store_def)

lemma sample_store_write:
  "req_method q = PUT \<Longrightarrow> fetch (sample_store n x) earlier q = x"
  by (simp add: sample_store_def)

lemma failing_store_fetch: "fetch failing_store earlier q = Inl FetchFailed"
  by (simp add: failing_store_def)

lemma decimal_503: "decimal 503 = lit ''503''"
  by code_simp

section \<open>Properties of the config\<close>

text \<open>
  C8. Whatever the owner, repo, branch and token given, \<open>load\<close> after \<open>save\<close> returns true
  and leaves the config that \<open>save\<close> made: the four fields trimmed, the branch \<open>main\<close>
  when its trimmed value is empty. \<open>load\<close> after \<open>disconnect\<close> returns false and there is
  no config.
\<close>

theorem save_then_load:
  "load (save pf owner repo branch token w) = (Inr True, save pf owner repo branch token w) \<and>
   config (save pf owner repo branch token w) =
     config_object (trim owner) (trim repo)
       (if trim branch = [] then lit ''main'' else trim branch) (trim token) \<and>
   load (disconnect w) = (Inr False, disconnect w) \<and>
   config (disconnect w) = JNull \<and> local_storage (disconnect w) = None"
proof -
  let ?c = "config_object (trim owner) (trim repo)
              (if trim branch = [] then lit ''main'' else trim branch) (trim token)"
  let ?w = "save pf owner repo branch token w"
  have c: "config ?w = ?c"
    and s: "local_storage ?w = Some (JSON_stringify (number_text pf) ?c)"
    by (simp_all add: save_def Let_def)
  have t: "ToBoolean ?c"
    by (simp add: config_object_def)
  have u: "updateStatusUI (?w\<lparr>config := ?c\<rparr>) = ?w"
    by (simp add: save_def Let_def updateStatusUI_def isConnected_def)
  have "load ?w = (Inr True, ?w)"
    by (simp add: load_def s JSON_parse_config_object config_object_text_nonempty t u
        del: ToBoolean.simps)
  moreover have "load (disconnect w) = (Inr False, disconnect w)"
    by (simp add: load_def disconnect_def updateStatusUI_def isConnected_def opt_member_def)
  ultimately show ?thesis
    using c by (simp add: disconnect_def)
qed

theorem save_then_load_witness:
  "load (save failing_store (lit '' a '') (lit ''b '') (lit '' '') (lit ''t'') offline_world) =
     (Inr True, save failing_store (lit '' a '') (lit ''b '') (lit '' '') (lit ''t'') offline_world) \<and>
   config (save failing_store (lit '' a '') (lit ''b '') (lit '' '') (lit ''t'') offline_world) =
     sample_config \<and>
   load (disconnect sample_world) = (Inr False, disconnect sample_world)"
proof -
  have t: "trim (lit '' a '') = lit ''a''" "trim (lit ''b '') = lit ''b''"
    "trim (lit '' '') = []" "trim (lit ''t'') = lit ''t''"
    by code_simp+
  show ?thesis
    using save_then_load [of failing_store "lit '' a ''" "lit ''b ''" "lit '' ''" "lit ''t''"
        offline_world]
      save_then_load [of failing_store "lit '' a ''" "lit ''b ''" "lit '' ''" "lit ''t''"
        sample_world]
    by (simp add: t sample_config_def)
qed




text \<open>
  C2. \<open>load\<close> treats a missing item (and the empty string) as no config and returns
  false, but it does not tolerate a malformed item: JSON.parse throws a SyntaxError and
  \<open>load\<close> lets it through to the caller.
\<close>

theorem load_malformed_throws:
  "fst (load (offline_world\<lparr>local_storage := Some (lit ''{'')\<rparr>)) = Inl SyntaxError \<and>
   fst (load (offline_world\<lparr>local_storage := Some (lit ''not json'')\<rparr>)) = Inl SyntaxError \<and>
   fst (load offline_world) = Inr False \<and>
   fst (load (offline_world\<lparr>local_storage := Some []\<rparr>)) = Inr False"
  by code_simp

section \<open>Properties of the transport encoding\<close>

text \<open>
  C4. For every well-formed string (no surrogate outside a pair, so also every string with
  characters of several bytes), the text that \<open>commitFile\<close> sends decodes to the string
  itself: \<open>btoa(unescape(encodeURIComponent(s)))\<close> returns some \<open>x\<close>, and
  \<open>decodeURIComponent(escape(atob(x)))\<close> returns \<open>s\<close>; removing line feeds from \<open>x\<close>
  first, as \<open>loadRemoteData\<close> does, changes nothing.
\<close>

theorem text_round_trip:
  assumes "well_formed s"
  shows "\<exists>x. encode_text s = Inr x \<and> decode_text x = Inr s \<and>
           decode_text (filter (\<lambda>c. c \<noteq> 0x0A) x) = Inr s"
proof -
  from encodeURIComponent_utf8 [OF assms] obtain e where
    e: "encodeURIComponent s = Inr e" "unescape e = map code_unit (utf8_string s)"
    by blast
  let ?x = "b64_encode (utf8_string s)"
  have x: "encode_text s = Inr ?x"
    by (simp add: encode_text_def e btoa_bytes utf8_string_bytes)
  have d: "decode_text ?x = Inr s"
    by (simp add: decode_text_def atob_b64_encode utf8_string_bytes
        decodeURIComponent_utf8 [OF assms])
  have "filter (\<lambda>c. \<not> is_ascii_space c) ?x = ?x"
    by (rule b64_encode_no_space) (rule utf8_string_bytes)
  then have "\<forall>c \<in> set ?x. \<not> is_ascii_space c"
    by (metis (mono_tags, lifting) filter_id_conv)
  then have "\<forall>c \<in> set ?x. c \<noteq> 0x0A"
    by (auto simp: is_ascii_space_def)
  then have "filter (\<lambda>c. c \<noteq> 0x0A) ?x = ?x"
    by simp
  with x d show ?thesis by simp
qed

theorem text_round_trip_witness:
  "well_formed [0x61, 0xE9, 0xD83D, 0xDCF8] \<and>
   encode_text [0x61, 0xE9, 0xD83D, 0xDCF8] = Inr (lit ''YcOp8J+TuA=='') \<and>
   decode_text (lit ''YcOp8J+TuA=='') = Inr [0x61, 0xE9, 0xD83D, 0xDCF8] \<and>
   \<not> well_formed [0xD83D] \<and> encode_text [0xD83D] = Inl URIError"
proof -
  let ?s = "[0x61, 0xE9, 0xD83D, 0xDCF8] :: jsstring"
  have w: "well_formed ?s"
    by (simp add: is_high_surrogate_def is_low_surrogate_def)
  have "utf8_string ?s = [97, 195, 169, 240, 159, 147, 184]"
    by (simp add: is_high_surrogate_def is_low_surrogate_def pair_code_point_def utf8_bytes_def)
  moreover have "b64_encode [97, 195, 169, 240, 159, 147, 184] = lit ''YcOp8J+TuA==''"
    by (simp add: b64_char_def code_unit_def lit_def)
  ultimately have e: "encode_text ?s = Inr (lit ''YcOp8J+TuA=='')"
    using encode_text_utf8 [OF w] by simp
  have n: "\<not> well_formed [0xD83D]" "encode_text [0xD83D] = Inl URIError"
    by (simp_all add: is_high_surrogate_def is_low_surrogate_def encode_text_def
        uri_unreserved_def is_alnum_def)
  from text_round_trip [OF w] obtain x where
    x: "encode_text ?s = Inr x" and d: "decode_text x = Inr ?s"
    by blast
  from x e have "x = lit ''YcOp8J+TuA==''"
    by simp
  with d have d': "decode_text (lit ''YcOp8J+TuA=='') = Inr ?s"
    by simp
  show ?thesis
    by (intro conjI w e n d')
qed

section \<open>Properties of the remote file client\<close>

text \<open>
  C10. If the config is not connected, \<open>commitFile\<close> returns false at once, whatever the
  path, content, message and binary flag: the state is returned as it was, so no read and
  no write request has been made.
\<close>

theorem commitFile_not_connected:
  "\<not> isConnected w \<Longrightarrow> commitFile pf path content commitMsg isBinary w = (Inr False, w)"
  by (simp add: commitFile_def)

theorem commitFile_not_connected_witness:
  "\<not> isConnected offline_world \<and>
   commitFile failing_store (lit ''data/league-data.json'') (lit ''{}'') (lit ''update'') False
     offline_world = (Inr False, offline_world) \<and>
   sent offline_world = []"
  using commitFile_not_connected [OF offline_not_connected, of failing_store
      "lit ''data/league-data.json''" "lit ''{}''" "lit ''update''" False]
    offline_not_connected
  by (simp add: offline_world_def)

text \<open>
  C1, as the code has it. \<open>getFileSHA\<close> catches whatever its \<open>try\<close> block throws and
  returns none. \<open>commitFile\<close> returns false when the config is not connected; when it is
  connected it has no \<open>try\<close>: it returns whether the store accepted the write, and an
  error thrown while the write request is built (the content does not encode) or sent (the
  transport fails) reaches the caller.
\<close>

theorem remote_file_client_errors:
  "(\<forall>e w1. getFileSHA_try pf path w = (Inl e, w1) \<longrightarrow> getFileSHA pf path w = (JNull, w1)) \<and>
   (\<not> isConnected w \<longrightarrow> fst (commitFile pf path content commitMsg isBinary w) = Inr False) \<and>
   (\<forall>sha w1. isConnected w \<and> getFileSHA pf path w = (sha, w1) \<longrightarrow>
      fst (commitFile pf path content commitMsg isBinary w) =
        (case write_request pf path content commitMsg isBinary sha w1 of
           Inl e \<Rightarrow> Inl e
         | Inr q \<Rightarrow> (case fetch pf (sent w1) q of Inl e \<Rightarrow> Inl e | Inr res \<Rightarrow> Inr (ok res))))"
proof (intro conjI allI impI)
  fix e w1
  assume "getFileSHA_try pf path w = (Inl e, w1)"
  then show "getFileSHA pf path w = (JNull, w1)"
    by (simp add: getFileSHA_def)
next
  assume "\<not> isConnected w"
  then show "fst (commitFile pf path content commitMsg isBinary w) = Inr False"
    by (simp add: commitFile_def)
next
  fix sha w1
  assume "isConnected w \<and> getFileSHA pf path w = (sha, w1)"
  then show "fst (commitFile pf path content commitMsg isBinary w) =
        (case write_request pf path content commitMsg isBinary sha w1 of
           Inl e \<Rightarrow> Inl e
         | Inr q \<Rightarrow> (case fetch pf (sent w1) q of Inl e \<Rightarrow> Inl e | Inr res \<Rightarrow> Inr (ok res)))"
    by (simp add: commitFile_def do_fetch_def split: sum.splits)
qed

theorem remote_file_client_errors_witness:
  "fst (getFileSHA_try failing_store (lit ''notes.txt'') sample_world) = Inl FetchFailed \<and>
   fst (getFileSHA failing_store (lit ''notes.txt'') sample_world) = JNull \<and>
   \<not> isConnected offline_world \<and>
   fst (commitFile failing_store (lit ''notes.txt'') (lit ''c'') (lit ''m'') False offline_world) =
     Inr False \<and>
   isConnected sample_world \<and>
   fst (commitFile (sample_store 404 (Inl FetchFailed)) (lit ''notes.txt'') (lit ''c'') (lit ''m'')
          False sample_world) = Inl FetchFailed \<and>
   fst (commitFile (sample_store 404 conflict) (lit ''notes.txt'') (lit ''c'') (lit ''m'')
          False sample_world) = Inr False \<and>
   fst (commitFile (sample_store 404 accepted) (lit ''notes.txt'') [0xD83D] (lit ''m'')
          False sample_world) = Inl URIError"
proof -
  let ?P = "lit ''notes.txt''"
  note t = remote_file_client_errors [where path = ?P and commitMsg = "lit ''m''"
      and isBinary = False]
  note t1 = t [THEN conjunct1, rule_format]
  note t2 = t [THEN conjunct2, THEN conjunct1, rule_format]
  note t3 = t [THEN conjunct2, THEN conjunct2, rule_format, OF conjI,
               OF sample_connected surjective_pairing]
  have a: "fst (getFileSHA_try failing_store ?P sample_world) = Inl FetchFailed"
    by code_simp
  then have "getFileSHA_try failing_store ?P sample_world =
               (Inl FetchFailed, snd (getFileSHA_try failing_store ?P sample_world))"
    by (simp add: prod_eq_iff)
  from t1 [OF this] have b: "fst (getFileSHA failing_store ?P sample_world) = JNull"
    by simp
  have c: "fst (commitFile failing_store ?P (lit ''c'') (lit ''m'') False offline_world) = Inr False"
    by (rule t2 [OF offline_not_connected])
  have w: "map_sum id req_method
             (write_request (sample_store 404 x) ?P (lit ''c'') (lit ''m'') False
                (fst (getFileSHA (sample_store 404 x) ?P sample_world))
                (snd (getFileSHA (sample_store 404 x) ?P sample_world))) = Inr PUT"
    if "x = Inl FetchFailed \<or> x = conflict" for x
    using that by (elim disjE; hypsubst) code_simp+
  have d: "fst (commitFile (sample_store 404 x) ?P (lit ''c'') (lit ''m'') False sample_world) =
             (case x of Inl e \<Rightarrow> Inl e | Inr res \<Rightarrow> Inr (ok res))"
    if "x = Inl FetchFailed \<or> x = conflict" for x
    using t3 [of "sample_store 404 x" "lit ''c''"] w [OF that]
    by (auto simp: sample_store_write split: sum.splits)
  have e: "write_request (sample_store 404 accepted) ?P [0xD83D] (lit ''m'') False
             (fst (getFileSHA (sample_store 404 accepted) ?P sample_world))
             (snd (getFileSHA (sample_store 404 accepted) ?P sample_world)) = Inl URIError"
    by code_simp
  have f: "fst (commitFile (sample_store 404 accepted) ?P [0xD83D] (lit ''m'') False sample_world) =
             Inl URIError"
    using t3 [of "sample_store 404 accepted" "[0xD83D]"] by (simp add: e)
  have okc: "(case conflict of Inl e \<Rightarrow> Inl e | Inr res \<Rightarrow> Inr (ok res)) = Inr False"
    by (simp add: conflict_def ok_def)
  show ?thesis
    using a b c d [of "Inl FetchFailed"] d [of conflict] f sample_connected offline_not_connected
    by (simp add: okc)
qed

text \<open>
  C1 as stated fails: with a connected config, a read answered 404 and a write request
  that the transport fails, \<open>commitFile\<close> does not return false; the error comes out
  of it.
\<close>

theorem commitFile_throws_counterexample:
  "fst (commitFile (sample_store 404 (Inl FetchFailed)) (lit ''notes.txt'') (lit ''c'') (lit ''m'')
         False sample_world) = Inl FetchFailed"
  by code_simp

text \<open>
  C3. With a connected config, the write request of \<open>commitFile\<close> is the one built from the
  tag that the \<open>getFileSHA\<close> read just before it returned: it is a PUT whose body has a
  member \<open>sha\<close> exactly when that tag is not none, and the member is the tag. When the
  request cannot be built, nothing is written.
\<close>

theorem commitFile_revision_tag:
  assumes "isConnected w" and "getFileSHA pf path w = (sha, w1)"
    and "commitFile pf path content commitMsg isBinary w = (r, w2)"
  shows "(case write_request pf path content commitMsg isBinary sha w1 of
            Inl e \<Rightarrow> r = Inl e \<and> w2 = w1
          | Inr q \<Rightarrow>
              sent w2 = sent w1 @ [q] \<and> req_method q = PUT \<and>
              (\<exists>body. req_body q = Some body \<and>
                 (has_member body (lit ''sha'') \<longleftrightarrow> sha \<noteq> JNull) \<and>
                 (sha \<noteq> JNull \<longrightarrow> own_member body (lit ''sha'') = sha)))"
proof (cases "write_request pf path content commitMsg isBinary sha w1")
  case (Inl e)
  then show ?thesis
    using assms by (simp add: commitFile_def)
next
  case (Inr q)
  have tag: "sha = JNull \<or> ToBoolean sha"
    using getFileSHA_tag [of pf path w] assms(2) by simp
  from Inr obtain branch c where
    q: "put_request pf path (commit_body commitMsg branch c sha) w1 = Inr q"
    by (auto simp: write_request_def bind_err_eq_Inr)
  then have m: "req_method q = PUT"
    and b: "req_body q = Some (commit_body commitMsg branch c sha)"
    by (auto simp: put_request_def bind_err_eq_Inr)
  have s: "sent w2 = sent w1 @ [q]"
    using assms Inr
    by (cases "fetch pf (sent w1) q") (simp_all add: commitFile_def do_fetch_def, auto)
  have h: "has_member (commit_body commitMsg branch c sha) (lit ''sha'') \<longleftrightarrow> sha \<noteq> JNull"
    using tag by (auto simp: has_member_def commit_body_def lit_def)
  have o: "sha \<noteq> JNull \<longrightarrow> own_member (commit_body commitMsg branch c sha) (lit ''sha'') = sha"
    using tag by (auto simp: commit_body_def lit_def)
  show ?thesis
    using Inr m b s h o by simp
qed

theorem commitFile_revision_tag_witness:
  "isConnected sample_world \<and>
   fst (getFileSHA (sample_store 200 accepted) (lit ''notes.txt'') sample_world) =
     JStr (lit ''abc'') \<and>
   map (\<lambda>q. map_option (\<lambda>b. own_member b (lit ''sha'')) (req_body q))
     (sent (snd (commitFile (sample_store 200 accepted) (lit ''notes.txt'') (lit ''c'')
                   (lit ''m'') False sample_world))) =
     [None, Some (JStr (lit ''abc''))] \<and>
   fst (getFileSHA (sample_store 404 accepted) (lit ''notes.txt'') sample_world) = JNull \<and>
   map (\<lambda>q. map_option (\<lambda>b. has_member b (lit ''sha'')) (req_body q))
     (sent (snd (commitFile (sample_store 404 accepted) (lit ''notes.txt'') (lit ''c'')
                   (lit ''m'') False sample_world))) =
     [None, Some False]"
proof -
  let ?P = "lit ''notes.txt''"
  let ?go = "\<lambda>n. commitFile (sample_store n accepted) ?P (lit ''c'') (lit ''m'') False sample_world"
  let ?rd = "\<lambda>n. getFileSHA (sample_store n accepted) ?P sample_world"
  note t = commitFile_revision_tag [OF sample_connected surjective_pairing surjective_pairing,
      of "sample_store n accepted" ?P "lit ''c''" "lit ''m''" False for n]
  have g200: "fst (?rd 200) = JStr (lit ''abc'')" and g404: "fst (?rd 404) = JNull"
    by code_simp+
  have s200: "map req_body (sent (snd (?rd 200))) = [None]"
    and s404: "map req_body (sent (snd (?rd 404))) = [None]"
    by code_simp+
  have w200: "(case write_request (sample_store 200 accepted) ?P (lit ''c'') (lit ''m'') False
                (fst (?rd 200)) (snd (?rd 200)) of Inl e \<Rightarrow> False | Inr q \<Rightarrow> True)"
    and w404: "(case write_request (sample_store 404 accepted) ?P (lit ''c'') (lit ''m'') False
                (fst (?rd 404)) (snd (?rd 404)) of Inl e \<Rightarrow> False | Inr q \<Rightarrow> True)"
    by code_simp+
  from t [of 200] w200 g200 s200
  have a: "map (\<lambda>q. map_option (\<lambda>b. own_member b (lit ''sha'')) (req_body q)) (sent (snd (?go 200))) =
             [None, Some (JStr (lit ''abc''))]"
    by (auto split: sum.splits)
  from t [of 404] w404 g404 s404
  have b: "map (\<lambda>q. map_option (\<lambda>b. has_member b (lit ''sha'')) (req_body q)) (sent (snd (?go 404))) =
             [None, Some False]"
    by (auto split: sum.splits)
  show ?thesis
    using sample_connected g200 g404 a b by simp
qed

section \<open>Properties of the sync coordinator\<close>

text \<open>
  C9. With a connected config whose owner, repo and branch are strings (as \<open>save\<close>
  stores them), \<open>uploadMatchImage\<close> returns the URL
  \<open>https://raw.githubusercontent.com/{owner}/{repo}/{branch}/match-images/{filename}\<close> when
  the write of \<open>commitFile\<close> succeeded, and none when the write was refused or an error
  was thrown.
\<close>

theorem uploadMatchImage_url:
  assumes "isConnected w"
    and "own_member (config w) (lit ''owner'') = JStr owner"
    and "own_member (config w) (lit ''repo'') = JStr repo"
    and "own_member (config w) (lit ''branch'') = JStr branch"
  shows "fst (uploadMatchImage pf base64Data filename w) =
           (if fst (commitFile pf (lit ''match-images/'' @ filename) base64Data
                      (0xD83D # 0xDCF8 # lit '' Match screenshot: '' @ filename) True w) = Inr True
            then Some (lit ''https://raw.githubusercontent.com/'' @ owner @ lit ''/'' @ repo @
                       lit ''/'' @ branch @ lit ''/match-images/'' @ filename)
            else None)"
proof -
  let ?path = "lit ''match-images/'' @ filename"
  let ?c = "commitFile pf ?path base64Data
              (0xD83D # 0xDCF8 # lit '' Match screenshot: '' @ filename) True"
  let ?w0 = "showSyncBar (lit ''Uploading match screenshot'' @ [0x2026]) w"
  obtain r w1 where cw: "?c w = (r, w1)"
    by (cases "?c w")
  let ?w1 = "w1\<lparr>sync_bar := sync_bar ?w0\<rparr>"
  have c0: "?c ?w0 = (r, ?w1)"
    using cw by (simp add: showSyncBar_def commitFile_sync_bar)
  let ?w2 = "hideSyncBar (lit ''ok'') (lit ''Screenshot saved to GitHub'') ?w1"
  have "config w1 = config w"
    using commitFile_config [of pf ?path base64Data
        "0xD83D # 0xDCF8 # lit '' Match screenshot: '' @ filename" True w] cw by simp
  then have cfg: "config ?w2 = config w"
    by simp
  have "raw_url pf ?path w =
          Inr (lit ''https://raw.githubusercontent.com/'' @ owner @ lit ''/'' @ repo @
               lit ''/'' @ branch @ lit ''/'' @ ?path)"
    using assms connected_not_nullish [OF assms(1)] by (simp add: raw_url_def request_defs)
  moreover have "lit ''/'' @ ?path = lit ''/match-images/'' @ filename"
    by (simp add: lit_def)
  moreover have "raw_url pf ?path ?w2 = raw_url pf ?path w"
    by (rule requests_config(9) [OF cfg])
  ultimately have url: "raw_url pf ?path ?w2 =
          Inr (lit ''https://raw.githubusercontent.com/'' @ owner @ lit ''/'' @ repo @
               lit ''/'' @ branch @ lit ''/match-images/'' @ filename)"
    by simp
  show ?thesis
  proof (cases r)
    case (Inl e)
    then show ?thesis
      using assms(1) by (simp add: uploadMatchImage_def Let_def c0 cw)
  next
    case (Inr b)
    then show ?thesis
      using assms(1) by (cases b) (simp_all add: uploadMatchImage_def Let_def c0 cw url)
  qed
qed

theorem uploadMatchImage_url_witness:
  "isConnected sample_world \<and>
   own_member (config sample_world) (lit ''owner'') = JStr (lit ''a'') \<and>
   own_member (config sample_world) (lit ''repo'') = JStr (lit ''b'') \<and>
   own_member (config sample_world) (lit ''branch'') = JStr (lit ''main'') \<and>
   fst (uploadMatchImage (sample_store 404 accepted) (lit ''AAAA'') (lit ''f.png'') sample_world) =
     Some (lit ''https://raw.githubusercontent.com/a/b/main/match-images/f.png'') \<and>
   fst (uploadMatchImage (sample_store 404 conflict) (lit ''AAAA'') (lit ''f.png'') sample_world) =
     None \<and>
   fst (uploadMatchImage (sample_store 404 (Inl FetchFailed)) (lit ''AAAA'') (lit ''f.png'')
          sample_world) = None"
proof -
  have o: "own_member (config sample_world) (lit ''owner'') = JStr (lit ''a'')"
    and r: "own_member (config sample_world) (lit ''repo'') = JStr (lit ''b'')"
    and b: "own_member (config sample_world) (lit ''branch'') = JStr (lit ''main'')"
    by (simp_all add: sample_defs)
  note t = uploadMatchImage_url [OF sample_connected o r b,
      where filename = "lit ''f.png''" and ?base64Data = "lit ''AAAA''"]
  have c1: "fst (commitFile (sample_store 404 accepted) (lit ''match-images/'' @ lit ''f.png'')
                   (lit ''AAAA'') (0xD83D # 0xDCF8 # lit '' Match screenshot: '' @ lit ''f.png'')
                   True sample_world) = Inr True"
    by code_simp
  have c2: "fst (commitFile (sample_store 404 conflict) (lit ''match-images/'' @ lit ''f.png'')
                   (lit ''AAAA'') (0xD83D # 0xDCF8 # lit '' Match screenshot: '' @ lit ''f.png'')
                   True sample_world) = Inr False"
    by code_simp
  have c3: "fst (commitFile (sample_store 404 (Inl FetchFailed))
                   (lit ''match-images/'' @ lit ''f.png'')
                   (lit ''AAAA'') (0xD83D # 0xDCF8 # lit '' Match screenshot: '' @ lit ''f.png'')
                   True sample_world) = Inl FetchFailed"
    by code_simp
  have u: "lit ''https://raw.githubusercontent.com/'' @ lit ''a'' @ lit ''/'' @ lit ''b'' @
           lit ''/'' @ lit ''main'' @ lit ''/match-images/'' @ lit ''f.png'' =
           lit ''https://raw.githubusercontent.com/a/b/main/match-images/f.png''"
    by (simp add: lit_def)
  show ?thesis
    using t [of "sample_store 404 accepted"] t [of "sample_store 404 conflict"]
      t [of "sample_store 404 (Inl FetchFailed)"] sample_connected o r b
    unfolding c1 c2 c3 u by simp
qed

text \<open>
  C7. With a connected config, when the store answers the read of the snapshot path with
  404, \<open>loadRemoteData\<close> returns none and tells the sync bar of a success, with the
  message that there is no remote data yet; no error is shown.
\<close>

theorem loadRemoteData_not_found:
  assumes "isConnected w" and "snapshot_request pf w = Inr q"
    and "fetch pf (sent w) q = Inr res" and "status res = 404"
  shows "fst (loadRemoteData pf w) = JNull \<and>
         sync_bar (snd (loadRemoteData pf w)) =
           sync_bar w @
           [SyncActive (lit ''Loading data from GitHub'' @ [0x2026]),
            SyncOk (lit ''No remote data yet '' @ [0x2014] @ lit '' starting fresh'')]"
proof -
  let ?w0 = "showSyncBar (lit ''Loading data from GitHub'' @ [0x2026]) w"
  have q: "snapshot_request pf ?w0 = Inr q"
    using assms(2) by (simp add: requests_config [of ?w0 w])
  have f: "do_fetch pf q ?w0 = (Inr res, ?w0\<lparr>sent := sent w @ [q]\<rparr>)"
    using assms(3) by (simp add: do_fetch_def)
  have nok: "\<not> ok res"
    using assms(4) by (simp add: ok_def)
  have r: "loadRemoteData pf w =
      (JNull, hideSyncBar (lit ''ok'')
                (lit ''No remote data yet '' @ [0x2014] @ lit '' starting fresh'')
                (?w0\<lparr>sent := sent w @ [q]\<rparr>))"
    using assms(1) nok by (simp add: loadRemoteData_def Let_def q f)
  have m: "lit ''No remote data yet '' @ [0x2014] @ lit '' starting fresh'' \<noteq> []"
    by (simp add: lit_def)
  show ?thesis
    unfolding r by (simp add: hideSyncBar_def m) (simp add: showSyncBar_def lit_def)
qed

theorem loadRemoteData_not_found_witness:
  "isConnected sample_world \<and>
   fst (loadRemoteData (sample_store 404 (Inl FetchFailed)) sample_world) = JNull \<and>
   sync_bar (snd (loadRemoteData (sample_store 404 (Inl FetchFailed)) sample_world)) =
     [SyncActive (lit ''Loading data from GitHub'' @ [0x2026]),
      SyncOk (lit ''No remote data yet '' @ [0x2014] @ lit '' starting fresh'')]"
  using loadRemoteData_not_found [OF sample_connected sample_snapshot_request sample_store_read,
      of 404 "Inl FetchFailed"] sample_connected
  by (simp add: sample_world_def)

text \<open>
  C6, as the code has it. With a connected config, \<open>testConnection\<close> answers the response
  to the read of the repository by its status: 200 is ok with the message \<open>Connected!\<close>,
  401 is not ok with \<open>Invalid token\<close>, 404 is not ok with \<open>Repo not found\<close>, any other
  status is not ok with \<open>Error\<close> and the status; a rejected \<open>fetch\<close> is not ok with
  \<open>Network error\<close>. The config and the stored item are left as they were.
\<close>

theorem testConnection_classifies:
  assumes "isConnected w" and "identity_request pf w = Inr q"
  shows "(\<forall>res. fetch pf (sent w) q = Inr res \<longrightarrow>
            fst (testConnection pf w) =
              (if status res = 200 then \<lparr>result_ok = True, msg = lit ''Connected!''\<rparr>
               else if status res = 401 then \<lparr>result_ok = False, msg = lit ''Invalid token''\<rparr>
               else if status res = 404 then \<lparr>result_ok = False, msg = lit ''Repo not found''\<rparr>
               else \<lparr>result_ok = False, msg = lit ''Error '' @ decimal (status res)\<rparr>)) \<and>
         (\<forall>e. fetch pf (sent w) q = Inl e \<longrightarrow>
            fst (testConnection pf w) = \<lparr>result_ok = False, msg = lit ''Network error''\<rparr>) \<and>
         config (snd (testConnection pf w)) = config w \<and>
         local_storage (snd (testConnection pf w)) = local_storage w"
  using assms
  by (cases "fetch pf (sent w) q") (simp_all add: testConnection_def do_fetch_def)

theorem testConnection_classifies_witness:
  "isConnected sample_world \<and>
   fst (testConnection (sample_store 200 (Inl FetchFailed)) sample_world) =
     \<lparr>result_ok = True, msg = lit ''Connected!''\<rparr> \<and>
   fst (testConnection (sample_store 401 (Inl FetchFailed)) sample_world) =
     \<lparr>result_ok = False, msg = lit ''Invalid token''\<rparr> \<and>
   fst (testConnection (sample_store 404 (Inl FetchFailed)) sample_world) =
     \<lparr>result_ok = False, msg = lit ''Repo not found''\<rparr> \<and>
   fst (testConnection (sample_store 503 (Inl FetchFailed)) sample_world) =
     \<lparr>result_ok = False, msg = lit ''Error 503''\<rparr> \<and>
   fst (testConnection failing_store sample_world) =
     \<lparr>result_ok = False, msg = lit ''Network error''\<rparr> \<and>
   config (snd (testConnection failing_store sample_world)) = sample_config"
proof -
  note t = testConnection_classifies [OF sample_connected sample_identity_request]
  have r: "fst (testConnection (sample_store n (Inl FetchFailed)) sample_world) =
             (if n = 200 then \<lparr>result_ok = True, msg = lit ''Connected!''\<rparr>
              else if n = 401 then \<lparr>result_ok = False, msg = lit ''Invalid token''\<rparr>
              else if n = 404 then \<lparr>result_ok = False, msg = lit ''Repo not found''\<rparr>
              else \<lparr>result_ok = False, msg = lit ''Error '' @ decimal n\<rparr>)" for n
    using t [of "sample_store n (Inl FetchFailed)", THEN conjunct1, rule_format,
        OF sample_store_read]
    by simp
  have e: "fst (testConnection failing_store sample_world) =
             \<lparr>result_ok = False, msg = lit ''Network error''\<rparr>"
    by (rule t [of failing_store, THEN conjunct2, THEN conjunct1, rule_format,
          OF failing_store_fetch])
  have c: "config (snd (testConnection failing_store sample_world)) = sample_config"
    using t [of failing_store, THEN conjunct2, THEN conjunct2, THEN conjunct1]
    by (simp add: sample_world_def)
  have l: "lit ''Error '' @ lit ''503'' = lit ''Error 503''"
    by (simp add: lit_def)
  show ?thesis
    using sample_connected r [of 200] r [of 401] r [of 404] r [of 503] e c
    by (simp add: decimal_503 l)
qed

text \<open>
  C6 as stated fails on the message for status 200: it is \<open>Connected!\<close>, with the
  exclamation mark, not \<open>Connected\<close>.
\<close>

theorem testConnection_message_counterexample:
  "fst (testConnection (sample_store 200 (Inl FetchFailed)) sample_world) \<noteq>
     \<lparr>result_ok = True, msg = lit ''Connected''\<rparr>"
  by (simp add: testConnection_def sample_connected sample_identity_request do_fetch_def
      sample_store_def lit_def)

end
